theory Spec2Isabelle
  imports Main "HOL-Library.Word"
begin

section \<open>Error values\<close>

text \<open>
  Go's \<open>error\<close> values, one constructor per error the two programs create or receive.
  \<^item> \<open>EOF\<close> is \<open>io.EOF\<close>; \<open>ErrWriteTooLong\<close>, \<open>ErrWriteAfterClose\<close> and
    \<open>ErrMissedWriting\<close> are the errors of \<open>archive/tar\<close>; \<open>ErrSyntax\<close> and
    \<open>ErrRange\<close> those of \<open>strconv\<close>; \<open>HostError n\<close> is any other error of the
    host (a device or file-system failure), told apart by a number.
  \<^item> \<open>errEmptySize\<close>, \<open>InvalidSizeMultiplier\<close> (\<open>invalid size multiplier: %v\<close>) and
    \<open>InvalidSize\<close> (\<open>invalid size\<close>, with its cause) are the errors of \<open>getSize\<close>.
  \<^item> \<open>BlockSizeNotPositive\<close> is \<open>BlockSize cannot be <= 0\<close>;
    \<open>ReadChunkFailed\<close> is \<open>failed to read next chunk from source: %v\<close>,
    \<open>WriteHeaderFailed\<close> is \<open>failed to write header %s to tar: %v\<close>,
    \<open>WriteChunkFailed\<close> is \<open>failed to write chunk to writer: %v\<close> and
    \<open>InitConfigFailed\<close> is \<open>failed to initialize splittar config: %v\<close>, each with
    its cause.
  \<^item> \<open>Deferred e prior\<close> is what \<open>errors.WrapDeferred\<close> leaves in the named result
    when a deferred call fails with \<open>e\<close> and the result held \<open>prior\<close>.
\<close>

datatype error =
    EOF
  | ErrWriteTooLong
  | ErrWriteAfterClose
  | ErrMissedWriting nat
  | ErrSyntax
  | ErrRange
  | HostError nat
  | errEmptySize
  | InvalidSizeMultiplier char
  | InvalidSize error
  | BlockSizeNotPositive
  | ReadChunkFailed error
  | WriteHeaderFailed string error
  | WriteChunkFailed error
  | InitConfigFailed error
  | Deferred error "error option"

section \<open>The size parser of main.go\<close>

text \<open>
  \<open>int64\<close> reduces an integer to 64-bit two's complement, as Go's \<open>int64\<close>
  arithmetic does. \<open>ParseUint\<close> and \<open>ParseInt\<close> are \<open>strconv.ParseUint(s, 10, 64)\<close>
  and \<open>strconv.ParseInt(s, 10, 64)\<close>: an optional sign, then decimal digits only (in base
  10 no prefix and no underscore is read), scanned from the left; the first character that
  is no digit gives \<open>ErrSyntax\<close> with value 0, a value past the range gives
  \<open>ErrRange\<close> with the nearest bound.
\<close>

definition int64 :: "int \<Rightarrow> int" where
  "int64 x = (x + 2 ^ 63) mod 2 ^ 64 - 2 ^ 63"

definition isdigit :: "char \<Rightarrow> bool" where
  "isdigit b \<longleftrightarrow> (of_char (CHR ''0'') :: int) \<le> of_char b \<and> (of_char b :: int) \<le> of_char (CHR ''9'')"

definition maxUint64 :: int where
  "maxUint64 = 2 ^ 64 - 1"

fun ParseUint_digits :: "string \<Rightarrow> int \<Rightarrow> int \<times> error option" where
  "ParseUint_digits [] n = (n, None)"
| "ParseUint_digits (c # cs) n =
     (if \<not> isdigit c then (0, Some ErrSyntax)
      else let n1 = n * 10 + (of_char c - of_char (CHR ''0''))
           in if n1 > maxUint64 then (maxUint64, Some ErrRange)
              else ParseUint_digits cs n1)"

definition ParseUint :: "string \<Rightarrow> int \<times> error option" where
  "ParseUint s = (if s = [] then (0, Some ErrSyntax) else ParseUint_digits s 0)"

definition ParseInt :: "string \<Rightarrow> int \<times> error option" where
  "ParseInt s =
     (if s = [] then (0, Some ErrSyntax)
      else
        let neg = (hd s = CHR ''-'');
            s1 = (if hd s = CHR ''+'' \<or> hd s = CHR ''-'' then tl s else s);
            (un, err) = ParseUint s1
        in if err = Some ErrSyntax then (0, err)
           else if \<not> neg \<and> un \<ge> 2 ^ 63 then (2 ^ 63 - 1, Some ErrRange)
           else if neg \<and> un > 2 ^ 63 then (- (2 ^ 63), Some ErrRange)
           else (if neg then - un else un, None))"

definition sizeMults :: "char \<rightharpoonup> int" where
  "sizeMults =
     [CHR ''b'' \<mapsto> 1,
      CHR ''B'' \<mapsto> 1,
      CHR ''k'' \<mapsto> 1000,
      CHR ''K'' \<mapsto> 1024,
      CHR ''m'' \<mapsto> 1000 * 1000,
      CHR ''M'' \<mapsto> 1024 * 1024,
      CHR ''g'' \<mapsto> 1000 * 1000 * 1000,
      CHR ''G'' \<mapsto> 1024 * 1024 * 1024,
      CHR ''t'' \<mapsto> 1000 * 1000 * 1000 * 1000,
      CHR ''T'' \<mapsto> 1024 * 1024 * 1024 * 1024,
      CHR ''p'' \<mapsto> 1000 * 1000 * 1000 * 1000,
      CHR ''P'' \<mapsto> 1024 * 1024 * 1024 * 1024]"

definition getSize :: "string \<Rightarrow> error + int" where
  "getSize v =
     (if length v = 0 then Inl errEmptySize
      else
        let suffix = v ! (length v - 1);
            r = (if \<not> isdigit suffix
                 then (case sizeMults suffix of
                         None \<Rightarrow> Inl (InvalidSizeMultiplier suffix)
                       | Some m \<Rightarrow> Inr (take (length v - 1) v, m))
                 else Inr (v, 1))
        in case r of
             Inl e \<Rightarrow> Inl e
           | Inr (v', mult) \<Rightarrow>
               (case ParseInt v' of
                  (sz, Some err) \<Rightarrow> Inl (InvalidSize err)
                | (sz, None) \<Rightarrow> Inr (int64 (sz * mult))))"

subsection \<open>The parser's steps in the specification's words\<close>

text \<open>
  The numeric part and the multiplier of an input as the specification names them (steps 2
  and 3), and "parses as a base-10 integer" as the specification explains it: an optional
  sign, at least one character, decimal digits only, a value in the range of \<open>int64\<close>.
  They are compared with \<open>getSize\<close> and \<open>ParseInt\<close> below.
\<close>

definition numeric_part :: "string \<Rightarrow> string" where
  "numeric_part v = (if isdigit (last v) then v else butlast v)"

definition multiplier :: "string \<Rightarrow> int option" where
  "multiplier v = (if isdigit (last v) then Some 1 else sizeMults (last v))"

definition decimal :: "string \<Rightarrow> int \<Rightarrow> int" where
  "decimal cs n = foldl (\<lambda>n c. n * 10 + (of_char c - of_char (CHR ''0''))) n cs"

definition base10_int64 :: "string \<Rightarrow> bool" where
  "base10_int64 s \<longleftrightarrow>
     (let signed = (s \<noteq> [] \<and> (hd s = CHR ''+'' \<or> hd s = CHR ''-''));
          digits = (if signed then tl s else s)
      in digits \<noteq> [] \<and> list_all isdigit digits \<and>
         (if s \<noteq> [] \<and> hd s = CHR ''-'' then decimal digits 0 \<le> 2 ^ 63
          else decimal digits 0 < 2 ^ 63))"

section \<open>The source stream\<close>

text \<open>
  An \<open>io.Reader\<close> is the list of the deliveries its successive \<open>Read\<close> calls will
  make. A delivery is a run of bytes together with the error that comes with its last byte:
  none, \<open>io.EOF\<close>, or a failure. \<open>Read src k\<close> is a call with a buffer of \<open>k\<close> bytes:
  it takes at most \<open>k\<close> bytes of the first delivery; a longer delivery is split and its
  error stays with the remainder. Once the list is used up every call returns no byte and
  \<open>io.EOF\<close>. A file or a pipe, which ends with an empty read, is a list of deliveries
  without errors; a reader that returns its last bytes together with \<open>io.EOF\<close>, which
  \<open>io.Reader\<close> allows, is a list whose last delivery carries \<open>EOF\<close>.
  An \<open>io.ReadCloser\<close> adds the result its \<open>Close\<close> will give and counts the calls.
\<close>

type_synonym byte = "8 word"

datatype delivery = Delivery (payload: "byte list") (signal: "error option")

fun Read :: "delivery list \<Rightarrow> nat \<Rightarrow> (byte list \<times> error option) \<times> delivery list" where
  "Read [] k = (([], Some EOF), [])"
| "Read (Delivery ds e # s) k =
     (if length ds \<le> k then ((ds, e), s)
      else ((take k ds, None), Delivery (drop k ds) e # s))"

record ReadCloser =
  pending :: "delivery list"
  close_result :: "error option"
  closes :: nat

definition rc_Close :: "ReadCloser \<Rightarrow> error option \<times> ReadCloser" where
  "rc_Close r = (close_result r, r\<lparr>closes := closes r + 1\<rparr>)"

section \<open>The archive writer\<close>

text \<open>
  \<open>archive/tar.Writer\<close> as the two programs observe it. An archive is the list of its
  entries, each a header and the body bytes accepted so far, and the flag \<open>trailer\<close> set
  when \<open>Close\<close> has written the end of the archive; the bytes of the encoding are not
  modelled. \<open>nb\<close> is the number of body bytes the current entry still expects.
  \<open>WriteHeader\<close> opens an entry expecting \<open>Size\<close> bytes (and refuses while the previous
  one is incomplete); \<open>Write\<close> appends at most \<open>nb\<close> bytes and returns
  \<open>ErrWriteTooLong\<close> when it was handed more; \<open>Close\<close> writes the trailer and makes
  every later call fail. An error of the underlying device is kept in \<open>tw_err\<close> and
  returned by every later call. The device is the list \<open>device\<close> of the outcomes of the
  calls that reach it, one outcome per call (the empty list: every write succeeds; a failed
  write stores nothing).
\<close>

datatype Format = FormatUnknown | FormatUSTAR | FormatPAX | FormatGNU

record Header =
  Typeflag :: char
  Name :: string
  Linkname :: string
  Size :: int
  Mode :: int
  Uid :: int
  Gid :: int
  Uname :: string
  Gname :: string
  ModTime :: int
  AccessTime :: int
  ChangeTime :: int
  Devmajor :: int
  Devminor :: int
  Xattrs :: "(string \<times> string) list"
  PAXRecords :: "(string \<times> string) list"
  Format :: Format

record Writer =
  entries :: "(Header \<times> byte list) list"
  nb :: nat
  tw_err :: "error option"
  device :: "error option list"
  trailer :: bool
  tw_closes :: nat

definition NewWriter :: "error option list \<Rightarrow> Writer" where
  "NewWriter dev =
     \<lparr>entries = [], nb = 0, tw_err = None, device = dev, trailer = False, tw_closes = 0\<rparr>"

definition device_write :: "Writer \<Rightarrow> error option \<times> Writer" where
  "device_write tw =
     (case device tw of
        [] \<Rightarrow> (None, tw)
      | r # rs \<Rightarrow> (r, tw\<lparr>device := rs\<rparr>))"

definition append_body :: "(Header \<times> byte list) list \<Rightarrow> byte list \<Rightarrow> (Header \<times> byte list) list" where
  "append_body es bs =
     (if es = [] then [] else butlast es @ [(fst (last es), snd (last es) @ bs)])"

definition tw_WriteHeader :: "Writer \<Rightarrow> Header \<Rightarrow> error option \<times> Writer" where
  "tw_WriteHeader tw hdr =
     (case tw_err tw of
        Some e \<Rightarrow> (Some e, tw)
      | None \<Rightarrow>
          if nb tw > 0 then (Some (ErrMissedWriting (nb tw)), tw)
          else (case device_write tw of
                  (Some e, tw') \<Rightarrow> (Some e, tw'\<lparr>tw_err := Some e\<rparr>)
                | (None, tw') \<Rightarrow>
                    (None, tw'\<lparr>entries := entries tw' @ [(hdr, [])], nb := nat (Size hdr)\<rparr>)))"

definition tw_Write :: "Writer \<Rightarrow> byte list \<Rightarrow> (nat \<times> error option) \<times> Writer" where
  "tw_Write tw b =
     (case tw_err tw of
        Some e \<Rightarrow> ((0, Some e), tw)
      | None \<Rightarrow>
          let overwrite = (length b > nb tw);
              b1 = (if overwrite then take (nb tw) b else b)
          in if length b1 > 0 then
               (case device_write tw of
                  (Some e, tw') \<Rightarrow> ((0, Some e), tw'\<lparr>tw_err := Some e\<rparr>)
                | (None, tw') \<Rightarrow>
                    ((length b1, if overwrite then Some ErrWriteTooLong else None),
                     tw'\<lparr>entries := append_body (entries tw') b1, nb := nb tw' - length b1\<rparr>))
             else ((0, if overwrite then Some ErrWriteTooLong else None), tw))"

definition tw_Close :: "Writer \<Rightarrow> error option \<times> Writer" where
  "tw_Close tw0 =
     (let tw = tw0\<lparr>tw_closes := tw_closes tw0 + 1\<rparr> in
      case tw_err tw of
        Some e \<Rightarrow> if e = ErrWriteAfterClose then (None, tw) else (Some e, tw)
      | None \<Rightarrow>
          if nb tw > 0
          then (Some (ErrMissedWriting (nb tw)), tw\<lparr>tw_err := Some ErrWriteAfterClose\<rparr>)
          else (case device_write tw of
                  (r, tw') \<Rightarrow> (r, tw'\<lparr>trailer := (r = None), tw_err := Some ErrWriteAfterClose\<rparr>)))"

section \<open>splittar.go\<close>

text \<open>
  The loops of \<open>SplitTar\<close> consume the source, so they terminate by the weight of the
  deliveries that are left: each \<open>Read\<close> that returns without error, for a buffer that is
  not empty, makes it smaller.
\<close>

fun weight :: "delivery list \<Rightarrow> nat" where
  "weight [] = 0"
| "weight (d # s) = Suc (length (payload d)) + weight s"

lemma Read_weight:
  "Read src k = ((ds, None), src') \<Longrightarrow> 0 < k \<Longrightarrow> weight src' < weight src"
  by (cases src; cases "hd src") (auto split: if_splits)

lemma Read_weight_le: "Read src k = (r, src') \<Longrightarrow> weight src' \<le> weight src"
  by (cases src; cases "hd src") (auto split: if_splits)

lemma Read_length: "Read src k = ((ds, e), s1) \<Longrightarrow> length ds \<le> k"
  by (cases src; cases "hd src") (auto split: if_splits)

text \<open>
  The inner read loop of \<open>SplitTar\<close>:
  \<^verbatim>\<open>for read = 0; read < len(b); read += n { n, err = c.source.Read(b[read:]); ... }\<close>.
  The buffer \<open>b\<close> keeps its length; the bytes of a \<open>Read\<close> are stored from offset
  \<open>read\<close>. On \<open>io.EOF\<close> the loop is left by \<open>break\<close>, before \<open>read += n\<close>; any
  other error returns from \<open>SplitTar\<close> with the error wrapped. The result is the source
  that is left, the buffer, \<open>read\<close>, and either the error to return (\<open>Inl\<close>) or the
  value of \<open>err\<close> after the loop (\<open>Inr\<close>).
\<close>

function readBlock ::
  "delivery list \<Rightarrow> byte list \<Rightarrow> nat \<Rightarrow> error option \<Rightarrow>
   delivery list \<times> byte list \<times> nat \<times> (error + error option)" where
  "readBlock src b read err =
     (if read < length b then
        (case Read src (length b - read) of
           ((ds, e), src') \<Rightarrow>
             let b' = take read b @ ds @ drop (read + length ds) b in
             (case e of
                Some x \<Rightarrow>
                  if x = EOF then (src', b', read, Inr (Some EOF))
                  else (src', b', read, Inl (ReadChunkFailed x))
              | None \<Rightarrow> readBlock src' b' (read + length ds) None))
      else (src, b, read, Inr err))"
  by pat_completeness auto
termination
  by (relation "measure (\<lambda>(src, b, read, err). weight src)") (auto intro: Read_weight[OF sym])

lemma readBlock_weight:
  "readBlock src b r err = (src', b', r', res) \<Longrightarrow>
   weight src' \<le> weight src \<and> (r < r' \<longrightarrow> weight src' < weight src)"
proof (induction src b r err arbitrary: src' b' r' res rule: readBlock.induct)
  case (1 src b read err)
  show ?case
  proof (cases "read < length b")
    case False
    with "1.prems" show ?thesis by simp
  next
    case True
    obtain ds e s1 where rd: "Read src (length b - read) = ((ds, e), s1)"
      by (metis prod.exhaust)
    show ?thesis
    proof (cases e)
      case (Some x)
      with "1.prems" True rd Read_weight_le[OF rd] show ?thesis
        by (auto simp add: Let_def split: if_splits)
    next
      case None
      let ?b = "take read b @ ds @ drop (read + length ds) b"
      have step: "readBlock s1 ?b (read + length ds) None = (src', b', r', res)"
        using "1.prems" True rd None by (simp add: Let_def)
      have lt: "weight s1 < weight src"
        using Read_weight[of src "length b - read" ds s1] rd None True by simp
      from "1.IH"[OF True rd[symmetric] refl refl None step] lt show ?thesis by auto
    qed
  qed
qed

lemma readBlock_length:
  "readBlock src b r err = (src', b', r', res) \<Longrightarrow> r \<le> length b \<Longrightarrow>
   length b' = length b \<and> r \<le> r' \<and> r' \<le> length b"
proof (induction src b r err arbitrary: src' b' r' res rule: readBlock.induct)
  case (1 src b read err)
  show ?case
  proof (cases "read < length b")
    case False
    with "1.prems" show ?thesis by simp
  next
    case True
    obtain ds e s1 where rd: "Read src (length b - read) = ((ds, e), s1)"
      by (metis prod.exhaust)
    have len: "length ds \<le> length b - read" using Read_length[OF rd] .
    let ?b = "take read b @ ds @ drop (read + length ds) b"
    have lb: "length ?b = length b" using len True by simp
    show ?thesis
    proof (cases e)
      case (Some x)
      with "1.prems" True rd lb show ?thesis
        by (auto simp add: Let_def split: if_splits)
    next
      case None
      have step: "readBlock s1 ?b (read + length ds) None = (src', b', r', res)"
        using "1.prems" True rd None by (simp add: Let_def)
      have "read + length ds \<le> length ?b" using len True lb by simp
      from "1.IH"[OF True rd[symmetric] refl refl None step this] lb show ?thesis by simp
    qed
  qed
qed

declare readBlock.simps [simp del]

text \<open>
  The write loop of \<open>SplitTar\<close>:
  \<^verbatim>\<open>for written := 0; written < read; written += n { n, err = c.target.Write(b[written:]); ... }\<close>.
  It hands \<open>Write\<close> the whole rest of the buffer, \<open>b[written:]\<close>. A \<open>Write\<close> of an
  empty slice returns 0 and no error, so for arguments with \<open>read > len(b)\<close> the loop
  would not end: the function is partial, and \<open>None\<close> is a run that does not return.
  \<open>SplitTar\<close> calls it with \<open>read \<le> len(b)\<close>, where it returns
  (\<open>writeBlock_once\<close>, \<open>SplitTar_returns\<close>).
\<close>

partial_function (option) writeBlock ::
  "Writer \<Rightarrow> byte list \<Rightarrow> nat \<Rightarrow> nat \<Rightarrow> (error option \<times> Writer) option" where
  "writeBlock tw b read written =
     (if written < read then
        (case tw_Write tw (drop written b) of
           ((n, Some err), tw') \<Rightarrow> Some (Some (WriteChunkFailed err), tw')
         | ((n, None), tw') \<Rightarrow> writeBlock tw' b read (written + n))
      else Some (None, tw))"

text \<open>
  \<open>fmt.Sprintf("%08d", i)\<close> for an index \<open>i \<ge> 0\<close>: the decimal digits of \<open>i\<close>,
  padded with zeros on the left to eight characters.
\<close>

fun itoa :: "nat \<Rightarrow> string" where
  "itoa n =
     (if n < 10 then [''0123456789'' ! n]
      else itoa (n div 10) @ [''0123456789'' ! (n mod 10)])"

declare itoa.simps [simp del]

definition zero_pad :: "nat \<Rightarrow> string \<Rightarrow> string" where
  "zero_pad w s = replicate (w - length s) (CHR ''0'') @ s"

definition Sprintf_08d :: "nat \<Rightarrow> string" where
  "Sprintf_08d i = zero_pad 8 (itoa i)"

text \<open>
  \<open>createTarHeader\<close> reads the current user, the user's group and the clock; they are the
  record \<open>Host\<close>. A failed lookup is replaced by the fixed values of the source (and
  logged, which is not modelled). \<open>Atoi\<close> is \<open>strconv.Atoi\<close> on a 64-bit platform; its
  error is dropped by the source and the value it returns with the error is kept. The mode
  \<open>0444\<close> is 292.
\<close>

record User =
  User_Uid :: string
  User_Gid :: string
  User_Username :: string
  User_Name :: string
  User_HomeDir :: string

record Group =
  Group_Gid :: string
  Group_Name :: string

record Host =
  user_Current :: "error + User"
  user_LookupGroupId :: "string \<Rightarrow> error + Group"
  time_Now :: int

definition Atoi :: "string \<Rightarrow> int \<times> error option" where
  "Atoi s = ParseInt s"

definition TypeReg :: char where
  "TypeReg = CHR ''0''"

definition createTarHeader :: "Host \<Rightarrow> Header" where
  "createTarHeader host =
     (let u = (case user_Current host of
                 Inl err \<Rightarrow>
                   \<lparr>User_Uid = ''999'', User_Gid = ''999'', User_Username = ''<unknown>'',
                    User_Name = ''Unknown User'', User_HomeDir = []\<rparr>
               | Inr u \<Rightarrow> u);
          uid = fst (Atoi (User_Uid u));
          g = (case user_LookupGroupId host (User_Gid u) of
                 Inl err \<Rightarrow> \<lparr>Group_Gid = User_Gid u, Group_Name = ''<unknown>''\<rparr>
               | Inr g \<Rightarrow> g);
          gid = fst (Atoi (Group_Gid g));
          t = time_Now host
      in \<lparr>Typeflag = TypeReg,
          Name = [],
          Linkname = [],
          Size = 0,
          Mode = 292,
          Uid = uid,
          Gid = gid,
          Uname = User_Username u,
          Gname = Group_Name g,
          ModTime = t,
          AccessTime = t,
          ChangeTime = t,
          Devmajor = 0,
          Devminor = 0,
          Xattrs = [],
          PAXRecords = [],
          Format = FormatPAX\<rparr>)"

text \<open>
  The outer loop of \<open>SplitTar\<close>, \<^verbatim>\<open>for i := 0; ; i++\<close>: fill the buffer; stop when
  nothing was read; otherwise set \<open>h.Size\<close> and \<open>h.Name\<close>, write the header and the
  body. It returns the value of \<open>err\<close>, the source that is left and the writer. The calls
  of the logger are not modelled.
\<close>

function SplitTar_loop ::
  "nat \<Rightarrow> error option \<Rightarrow> Header \<Rightarrow> byte list \<Rightarrow> delivery list \<Rightarrow> Writer \<Rightarrow>
   (error option \<times> delivery list \<times> Writer) option" where
  "SplitTar_loop i err h b src tw =
     (case readBlock src b 0 err of
        (src', b', read, Inl e) \<Rightarrow> Some (Some e, src', tw)
      | (src', b', read, Inr err') \<Rightarrow>
          if read = 0 then Some (if err' = Some EOF then None else err', src', tw)
          else
            let name = Sprintf_08d i;
                h' = h\<lparr>Size := int read, Name := name\<rparr>
            in (case tw_WriteHeader tw h' of
                  (Some e, tw1) \<Rightarrow> Some (Some (WriteHeaderFailed name e), src', tw1)
                | (None, tw1) \<Rightarrow>
                    (case writeBlock tw1 b' read 0 of
                       None \<Rightarrow> None
                     | Some (Some e, tw2) \<Rightarrow> Some (Some e, src', tw2)
                     | Some (None, tw2) \<Rightarrow> SplitTar_loop (i + 1) None h' b' src' tw2)))"
  by pat_completeness auto
termination
  apply (relation "measure (\<lambda>(i, err, h, b, src, tw). weight src)")
   apply simp
  apply (auto dest!: readBlock_weight[OF sym])
  done

declare SplitTar_loop.simps [simp del]

text \<open>
  \<open>Config\<close> and its options. \<open>new(Config)\<close> has block size 0 and neither source nor
  target. \<open>SourceReader\<close> wraps a reader in a closer that does nothing; \<open>TargetWriter\<close>
  wraps a device in a new archive writer. (\<open>SourceFilename\<close>, which opens a file, is left
  out.)
\<close>

datatype status = Returned "error option" | Exited error | Panicked

record Config =
  block :: int
  source :: "ReadCloser option"
  target :: "Writer option"

datatype Option =
    BlockSize int
  | Source ReadCloser
  | SourceReader "delivery list"
  | Target Writer
  | TargetWriter "error option list"

fun apply_Option :: "Option \<Rightarrow> Config \<Rightarrow> error option \<times> Config" where
  "apply_Option (BlockSize sz) c =
     (if sz \<le> 0 then (Some BlockSizeNotPositive, c) else (None, c\<lparr>block := sz\<rparr>))"
| "apply_Option (Source r) c = (None, c\<lparr>source := Some r\<rparr>)"
| "apply_Option (SourceReader r) c =
     (None, c\<lparr>source := Some \<lparr>pending = r, close_result = None, closes = 0\<rparr>\<rparr>)"
| "apply_Option (Target w) c = (None, c\<lparr>target := Some w\<rparr>)"
| "apply_Option (TargetWriter w) c = (None, c\<lparr>target := Some (NewWriter w)\<rparr>)"

fun NewConfig_options :: "Option list \<Rightarrow> Config \<Rightarrow> error + Config" where
  "NewConfig_options [] c = Inr c"
| "NewConfig_options (option # options) c =
     (case apply_Option option c of
        (Some err, c') \<Rightarrow> Inl err
      | (None, c') \<Rightarrow> NewConfig_options options c')"

definition NewConfig :: "Option list \<Rightarrow> error + Config" where
  "NewConfig options = NewConfig_options options \<lparr>block = 0, source = None, target = None\<rparr>"

text \<open>
  Modelled from the spec: \<open>errors.WrapDeferred\<close> of the package
  \<open>github.com/skillian/errors\<close>, which is not part of the repository. It runs the deferred
  call and, when that fails, stores in the named result an error composed of the new error
  and the result so far ("if both the run body and the close both failed, both errors should
  be reported (composed), not silently dropped"); when the call succeeds the result is left
  as it is.
\<close>

definition WrapDeferred :: "error option \<Rightarrow> error option \<Rightarrow> error option" where
  "WrapDeferred err r = (case r of None \<Rightarrow> err | Some e \<Rightarrow> Some (Deferred e err))"

text \<open>
  \<open>SplitTar\<close>: allocate the buffer (\<open>make\<close> panics on a negative length), build the
  header template, register the two deferred closes and run the loop. The deferred calls run
  in reverse order when the function returns: first the archive writer is closed, then the
  source. With no source or no target the run panics on a nil value; what it did before
  that is not modelled.
\<close>

definition SplitTar :: "Host \<Rightarrow> Config \<Rightarrow> (status \<times> Config) option" where
  "SplitTar host c =
     (if block c < 0 then Some (Panicked, c)
      else
        (case source c of
           None \<Rightarrow> Some (Panicked, c)
         | Some src \<Rightarrow>
             (case target c of
                None \<Rightarrow> Some (Panicked, c)
              | Some tw \<Rightarrow>
                  let b = replicate (nat (block c)) (0 :: byte);
                      h = createTarHeader host
                  in (case SplitTar_loop 0 None h b (pending src) tw of
                        None \<Rightarrow> None
                      | Some (err, rest, tw1) \<Rightarrow>
                          let (cerr, tw2) = tw_Close tw1;
                              err1 = WrapDeferred err cerr;
                              (serr, src1) = rc_Close (src\<lparr>pending := rest\<rparr>);
                              err2 = WrapDeferred err1 serr
                          in Some (Returned err2,
                                   c\<lparr>source := Some src1, target := Some tw2\<rparr>)))))"

text \<open>
  \<open>splitTar\<close> of the command that uses the library: it builds the configuration from the
  block size, the opened source and the opened target, and runs \<open>SplitTar\<close>. Opening the
  two files (with \<open>die\<close> on failure) comes before and is not modelled.
\<close>

definition splitTar ::
  "Host \<Rightarrow> ReadCloser \<Rightarrow> error option list \<Rightarrow> int \<Rightarrow> (status \<times> Config option) option" where
  "splitTar host src tgt blk =
     (case NewConfig [BlockSize blk, Source src, TargetWriter tgt] of
        Inl err \<Rightarrow> Some (Returned (Some (InitConfigFailed err)), None)
      | Inr c \<Rightarrow>
          (case SplitTar host c of
             None \<Rightarrow> None
           | Some (st, c') \<Rightarrow> Some (st, Some c')))"

section \<open>main.go\<close>

text \<open>
  \<open>Base\<close> is \<open>filepath.Base\<close> with the separator \<open>/\<close>. \<open>Sprintf_padFmt w i\<close> is
  \<open>fmt.Sprintf(padFmt, i)\<close> for \<open>padFmt = fmt.Sprintf("%%0%dd", w)\<close> and \<open>i \<ge> 0\<close>: zero
  padding to width \<open>w\<close> when \<open>w > 0\<close>, the plain number for \<open>w = 0\<close>, and for a negative
  \<open>w\<close> the format \<open>%0-Nd\<close>, which pads with spaces on the right. \<open>Int64Min\<close> is
  \<open>util.Int64Min\<close> (of a package outside the repository), taken to be the smaller of its
  arguments. \<open>main_readblock\<close> is the loop \<open>readblock\<close>, which adds \<open>n\<close> to \<open>c\<close>
  before it looks at the error; its last component is the error that \<open>exitOnError\<close>
  receives. \<open>main_readfile\<close> is the loop \<open>readfile\<close>; it hands \<open>Write\<close> the whole
  buffer \<open>b\<close> and counts the warnings printed when \<open>w != c\<close>.
\<close>

definition Base :: "string \<Rightarrow> string" where
  "Base path =
     (if path = [] then ''.''
      else
        let p1 = rev (dropWhile (\<lambda>c. c = CHR ''/'') (rev path));
            p2 = rev (takeWhile (\<lambda>c. c \<noteq> CHR ''/'') (rev p1))
        in if p2 = [] then ''/'' else p2)"

definition Sprintf_padFmt :: "int \<Rightarrow> nat \<Rightarrow> string" where
  "Sprintf_padFmt w i =
     (if w > 0 then zero_pad (nat w) (itoa i)
      else if w = 0 then itoa i
      else itoa i @ replicate (nat (- w) - length (itoa i)) (CHR '' ''))"

definition Int64Min :: "int \<Rightarrow> int \<Rightarrow> int" where
  "Int64Min a b = (if a < b then a else b)"

function main_readblock ::
  "delivery list \<Rightarrow> byte list \<Rightarrow> nat \<Rightarrow> delivery list \<times> byte list \<times> nat \<times> error option" where
  "main_readblock src b c =
     (if c < length b then
        (case Read src (length b - c) of
           ((ds, err), src') \<Rightarrow>
             let b' = take c b @ ds @ drop (c + length ds) b;
                 c' = c + length ds
             in if err = Some EOF then (src', b', c', None)
                else (case err of
                        Some e \<Rightarrow> (src', b', c', Some e)
                      | None \<Rightarrow> main_readblock src' b' c'))
      else (src, b, c, None))"
  by pat_completeness auto
termination
  by (relation "measure (\<lambda>(src, b, c). weight src)") (auto intro: Read_weight[OF sym])

lemma main_readblock_weight:
  "main_readblock src b c = (src', b', c', res) \<Longrightarrow>
   weight src' \<le> weight src \<and> (c < c' \<longrightarrow> weight src' < weight src)"
proof (induction src b c arbitrary: src' b' c' res rule: main_readblock.induct)
  case (1 src b c)
  show ?case
  proof (cases "c < length b")
    case False
    with "1.prems" show ?thesis by simp
  next
    case True
    obtain ds e s1 where rd: "Read src (length b - c) = ((ds, e), s1)"
      by (metis prod.exhaust)
    let ?b = "take c b @ ds @ drop (c + length ds) b"
    show ?thesis
    proof (cases e)
      case (Some x)
      have "weight s1 < weight src" if "0 < length ds"
      proof -
        have "src \<noteq> []" using rd that by (cases src) auto
        then obtain d s where src: "src = d # s" by (cases src) auto
        show ?thesis using rd that Some src by (cases d) (auto split: if_splits)
      qed
      with "1.prems" True rd Some Read_weight_le[OF rd] show ?thesis
        by (auto simp add: Let_def split: if_splits)
    next
      case None
      have step: "main_readblock s1 ?b (c + length ds) = (src', b', c', res)"
        using "1.prems" True rd None by (simp add: Let_def)
      have lt: "weight s1 < weight src"
        using Read_weight[of src "length b - c" ds s1] rd None True by simp
      from "1.IH"[OF True rd[symmetric] refl refl refl _ None step] None lt show ?thesis by auto
    qed
  qed
qed

declare main_readblock.simps [simp del]

function main_readfile ::
  "nat \<Rightarrow> Header \<Rightarrow> int \<Rightarrow> string \<Rightarrow> byte list \<Rightarrow> delivery list \<Rightarrow> Writer \<Rightarrow> nat \<Rightarrow>
   error option \<times> delivery list \<times> Writer \<times> nat" where
  "main_readfile i h suffixLength baseName b src tarFile warned =
     (case main_readblock src b 0 of
        (src', b', c, Some err) \<Rightarrow> (Some err, src', tarFile, warned)
      | (src', b', c, None) \<Rightarrow>
          if c = 0 then (None, src', tarFile, warned)
          else
            let h' = h\<lparr>Name := baseName @ CHR ''.'' # Sprintf_padFmt suffixLength i,
                       Size := int c\<rparr>
            in (case tw_WriteHeader tarFile h' of
                  (Some err, tw1) \<Rightarrow> (Some err, src', tw1, warned)
                | (None, tw1) \<Rightarrow>
                    (case tw_Write tw1 b' of
                       ((w, Some err), tw2) \<Rightarrow> (Some err, src', tw2, warned)
                     | ((w, None), tw2) \<Rightarrow>
                         main_readfile (i + 1) h' suffixLength baseName b' src' tw2
                           (if w \<noteq> c then warned + 1 else warned))))"
  by pat_completeness auto
termination
  apply (relation "measure (\<lambda>(i, h, suffixLength, baseName, b, src, tarFile, warned). weight src)")
   apply simp
  apply (auto dest!: main_readblock_weight[OF sym])
  done

declare main_readfile.simps [simp del]

text \<open>
  What \<open>main\<close> reads from its process is the record \<open>Process\<close>: the parsed arguments,
  the identity and the clock (package variables, initialised before \<open>main\<close> runs), the
  results of \<open>os.Open\<close>, \<open>Stat\<close> and \<open>os.Create\<close>, the deliveries of the source handle
  and the outcomes of the target device. What it leaves is the record \<open>Outcome\<close>.
  \<open>exitOnError\<close> prints the error and calls \<open>os.Exit(-1)\<close>, which ends the process
  without running the deferred calls: the outcome is \<open>Exited\<close> with the state reached.
  On a normal return, and on the panic of \<open>make\<close> for a negative length, the deferred calls
  run (\<open>main_deferred\<close>): \<open>tarFile.Close()\<close>, whose result is dropped, then the target
  and the source files when they were opened. The mode \<open>0400\<close> is 256.
\<close>

record Process =
  sizeString :: string
  suffixLength :: int
  srcFileName :: string
  tarFileName :: string
  uid :: int
  gid :: int
  currentUser_Username :: string
  time_now :: int
  os_Open :: "error option"
  source_Stat :: "error + int"
  os_Create :: "error option"
  source_data :: "delivery list"
  target_device :: "error option list"

record Outcome =
  exit_status :: status
  tarFile :: Writer
  unread :: "delivery list"
  opened :: bool
  created :: bool
  source_closes :: nat
  target_closes :: nat
  warnings :: nat

definition main_Header :: "Process \<Rightarrow> Header" where
  "main_Header p =
     \<lparr>Typeflag = TypeReg,
      Name = [],
      Linkname = [],
      Size = 0,
      Mode = 256,
      Uid = uid p,
      Gid = gid p,
      Uname = currentUser_Username p,
      Gname = currentUser_Username p,
      ModTime = time_now p,
      AccessTime = time_now p,
      ChangeTime = time_now p,
      Devmajor = 0,
      Devminor = 0,
      Xattrs = [],
      PAXRecords = [],
      Format = FormatGNU\<rparr>"

definition main_deferred :: "bool \<Rightarrow> bool \<Rightarrow> Outcome \<Rightarrow> Outcome" where
  "main_deferred from_file to_file out =
     (let out1 = out\<lparr>tarFile := snd (tw_Close (tarFile out))\<rparr>;
          out2 = (if to_file then out1\<lparr>target_closes := target_closes out1 + 1\<rparr> else out1)
      in if from_file then out2\<lparr>source_closes := source_closes out2 + 1\<rparr> else out2)"

definition main :: "Process \<Rightarrow> Outcome" where
  "main p =
     (let out0 = \<lparr>exit_status = Returned None, tarFile = NewWriter (target_device p),
                  unread = source_data p, opened = False, created = False,
                  source_closes = 0, target_closes = 0, warnings = 0\<rparr>;
          from_file = (srcFileName p \<noteq> [] \<and> srcFileName p \<noteq> ''-'');
          to_file = (tarFileName p \<noteq> [] \<and> tarFileName p \<noteq> ''-'')
      in case getSize (sizeString p) of
           Inl err \<Rightarrow> out0\<lparr>exit_status := Exited err\<rparr>
         | Inr size0 \<Rightarrow>
             (case (if from_file then os_Open p else None) of
                Some err \<Rightarrow> out0\<lparr>exit_status := Exited err\<rparr>
              | None \<Rightarrow>
                  let out1 = out0\<lparr>opened := from_file\<rparr>;
                      baseName = Base (srcFileName p)
                  in (case (if from_file then source_Stat p else Inr size0) of
                        Inl err \<Rightarrow> out1\<lparr>exit_status := Exited err\<rparr>
                      | Inr fs \<Rightarrow>
                          let size1 = (if from_file \<and> fs < size0 then fs else size0)
                          in (case (if to_file then os_Create p else None) of
                                Some err \<Rightarrow> out1\<lparr>exit_status := Exited err\<rparr>
                              | None \<Rightarrow>
                                  let out2 = out1\<lparr>created := to_file\<rparr>
                                  in if Int64Min size1 32768 < 0
                                     then main_deferred from_file to_file
                                            (out2\<lparr>exit_status := Panicked\<rparr>)
                                     else
                                       let b = replicate (nat (Int64Min size1 32768)) (0 :: byte)
                                       in (case main_readfile 0 (main_Header p) (suffixLength p)
                                                  baseName b (source_data p) (tarFile out2) 0 of
                                             (Some err, src', tw', w) \<Rightarrow>
                                               out2\<lparr>exit_status := Exited err, tarFile := tw',
                                                    unread := src', warnings := w\<rparr>
                                           | (None, src', tw', w) \<Rightarrow>
                                               main_deferred from_file to_file
                                                 (out2\<lparr>tarFile := tw', unread := src',
                                                       warnings := w\<rparr>))))))"

section \<open>Notions used to state the properties\<close>

text \<open>
  \<open>bodies\<close> is the concatenation of the entry bodies of an archive and \<open>sizes\<close> the
  list of the size fields. \<open>same_but_name_size t h\<close> says that the header \<open>h\<close> agrees
  with \<open>t\<close> in every field but name and size. A writer is clean when it has no pending
  entry and no error and its device never fails. \<open>deliveries dss\<close> is a source that
  delivers the runs \<open>dss\<close> without any error. \<open>full_chunks name h c P\<close> is the list of
  entries for the complete chunks of \<open>c\<close> bytes of \<open>P\<close>: entry \<open>k\<close> has the name
  \<open>name k\<close>, the size \<open>c\<close> and the bytes \<open>P[k*c .. (k+1)*c)\<close>; the last
  \<open>length P mod c\<close> bytes of \<open>P\<close> are in none of them. \<open>main_name\<close> is the entry name of
  main.go.
\<close>

definition bodies :: "Writer \<Rightarrow> byte list" where
  "bodies tw = concat (map snd (entries tw))"

definition sizes :: "Writer \<Rightarrow> int list" where
  "sizes tw = map (\<lambda>e. Size (fst e)) (entries tw)"

definition same_but_name_size :: "Header \<Rightarrow> Header \<Rightarrow> bool" where
  "same_but_name_size t h \<longleftrightarrow> h = t\<lparr>Name := Name h, Size := Size h\<rparr>"

definition clean_writer :: "Writer \<Rightarrow> bool" where
  "clean_writer tw \<longleftrightarrow> tw_err tw = None \<and> nb tw = 0 \<and> device tw = []"

definition deliveries :: "byte list list \<Rightarrow> delivery list" where
  "deliveries dss = map (\<lambda>ds. Delivery ds None) dss"

definition full_chunks ::
  "(nat \<Rightarrow> string) \<Rightarrow> Header \<Rightarrow> nat \<Rightarrow> byte list \<Rightarrow> (Header \<times> byte list) list" where
  "full_chunks name h c P =
     map (\<lambda>k. (h\<lparr>Size := int c, Name := name k\<rparr>, take c (drop (k * c) P)))
       [0..<length P div c]"

definition main_name :: "string \<Rightarrow> int \<Rightarrow> nat \<Rightarrow> string" where
  "main_name bn sl i = bn @ CHR ''.'' # Sprintf_padFmt sl i"

text \<open>Inputs for the concrete runs, and the equations that evaluate them.\<close>

definition example_host :: Host where
  "example_host =
     \<lparr>user_Current = Inr \<lparr>User_Uid = ''1000'', User_Gid = ''100'', User_Username = ''gopher'',
                            User_Name = ''Go Gopher'', User_HomeDir = ''/home/gopher''\<rparr>,
      user_LookupGroupId = (\<lambda>g. Inr \<lparr>Group_Gid = g, Group_Name = ''users''\<rparr>),
      time_Now = 1500000000\<rparr>"

definition stdin_process :: Process where
  "stdin_process =
     \<lparr>sizeString = ''4'', suffixLength = 2, srcFileName = ''-'', tarFileName = ''-'',
      uid = 1000, gid = 100, currentUser_Username = ''gopher'', time_now = 1500000000,
      os_Open = None, source_Stat = Inr 0, os_Create = None, source_data = [],
      target_device = []\<rparr>"

definition bytes_source :: "byte list \<Rightarrow> ReadCloser" where
  "bytes_source bs = \<lparr>pending = [Delivery bs None], close_result = None, closes = 0\<rparr>"

lemmas getSize_eval = getSize_def isdigit_def sizeMults_def ParseInt_def ParseUint_def
  maxUint64_def int64_def

lemmas SplitTar_eval = splitTar_def NewConfig_def SplitTar_def SplitTar_loop.simps
  readBlock.simps writeBlock.simps tw_Write_def tw_WriteHeader_def tw_Close_def rc_Close_def
  device_write_def append_body_def NewWriter_def WrapDeferred_def Let_def bodies_def sizes_def
  bytes_source_def

lemmas main_eval = main_def main_deferred_def main_readfile.simps main_readblock.simps
  main_Header_def Int64Min_def Base_def Sprintf_padFmt_def zero_pad_def itoa.simps
  tw_Write_def tw_WriteHeader_def tw_Close_def device_write_def append_body_def NewWriter_def
  Let_def bodies_def sizes_def stdin_process_def TypeReg_def

section \<open>Properties of the size parser\<close>

lemma getSize_unfold:
  "v \<noteq> [] \<Longrightarrow> getSize v =
     (case multiplier v of
        None \<Rightarrow> Inl (InvalidSizeMultiplier (last v))
      | Some m \<Rightarrow>
          (case ParseInt (numeric_part v) of
             (sz, Some err) \<Rightarrow> Inl (InvalidSize err)
           | (sz, None) \<Rightarrow> Inr (int64 (sz * m))))"
  by (simp add: getSize_def multiplier_def numeric_part_def Let_def last_conv_nth
      butlast_conv_take split: option.splits)

lemma decimal_mono: "0 \<le> n \<Longrightarrow> list_all isdigit cs \<Longrightarrow> n \<le> decimal cs n"
proof (induction cs arbitrary: n)
  case Nil
  then show ?case by (simp add: decimal_def)
next
  case (Cons c cs)
  have d: "0 \<le> (of_char c :: int) - of_char (CHR ''0'')"
    using Cons.prems(2) by (simp add: isdigit_def)
  have "n * 10 + (of_char c - of_char (CHR ''0'')) \<le> decimal cs (n * 10 + (of_char c - of_char (CHR ''0'')))"
    using Cons.IH[of "n * 10 + (of_char c - of_char (CHR ''0''))"] Cons.prems d by simp
  then show ?case using Cons.prems(1) d by (simp add: decimal_def)
qed

lemma ParseUint_digits_ok:
  "0 \<le> n \<Longrightarrow> list_all isdigit cs \<Longrightarrow> decimal cs n \<le> maxUint64 \<Longrightarrow>
   ParseUint_digits cs n = (decimal cs n, None)"
proof (induction cs arbitrary: n)
  case Nil
  then show ?case by (simp add: decimal_def)
next
  case (Cons c cs)
  let ?n1 = "n * 10 + (of_char c - of_char (CHR ''0''))"
  have d: "0 \<le> (of_char c :: int) - of_char (CHR ''0'')"
    using Cons.prems(2) by (simp add: isdigit_def)
  have n1: "0 \<le> ?n1" using Cons.prems(1) d by simp
  have dec: "decimal (c # cs) n = decimal cs ?n1" by (simp add: decimal_def)
  have "?n1 \<le> decimal cs ?n1" using decimal_mono[OF n1] Cons.prems(2) by simp
  then have le: "?n1 \<le> maxUint64" using Cons.prems(3) dec by simp
  show ?case using Cons.IH[OF n1] Cons.prems le dec by (simp add: Let_def)
qed

lemma ParseUint_digits_fail:
  "0 \<le> n \<Longrightarrow> n \<le> maxUint64 \<Longrightarrow> \<not> (list_all isdigit cs \<and> decimal cs n \<le> maxUint64) \<Longrightarrow>
   ParseUint_digits cs n = (0, Some ErrSyntax) \<or> ParseUint_digits cs n = (maxUint64, Some ErrRange)"
proof (induction cs arbitrary: n)
  case Nil
  then show ?case by (simp add: decimal_def)
next
  case (Cons c cs)
  let ?n1 = "n * 10 + (of_char c - of_char (CHR ''0''))"
  show ?case
  proof (cases "isdigit c")
    case False
    then show ?thesis by simp
  next
    case True
    then have d: "0 \<le> (of_char c :: int) - of_char (CHR ''0'')" by (simp add: isdigit_def)
    have n1: "0 \<le> ?n1" using Cons.prems(1) d by simp
    have dec: "decimal (c # cs) n = decimal cs ?n1" by (simp add: decimal_def)
    show ?thesis
    proof (cases "?n1 > maxUint64")
      case True
      then show ?thesis using \<open>isdigit c\<close> by (simp add: Let_def)
    next
      case False
      have "\<not> (list_all isdigit cs \<and> decimal cs ?n1 \<le> maxUint64)"
        using Cons.prems(3) \<open>isdigit c\<close> dec by simp
      from Cons.IH[OF n1 _ this] show ?thesis using \<open>isdigit c\<close> False by (simp add: Let_def)
    qed
  qed
qed

lemma ParseInt_ok_iff: "snd (ParseInt s) = None \<longleftrightarrow> base10_int64 s"
proof (cases "s = []")
  case True
  then show ?thesis by (simp add: ParseInt_def base10_int64_def)
next
  case False
  define ds where "ds = (if hd s = CHR ''+'' \<or> hd s = CHR ''-'' then tl s else s)"
  show ?thesis
  proof (cases "ds = []")
    case True
    then show ?thesis using False
      by (simp add: ParseInt_def ParseUint_def base10_int64_def ds_def Let_def)
  next
    case ne: False
    show ?thesis
    proof (cases "list_all isdigit ds \<and> decimal ds 0 \<le> maxUint64")
      case True
      then have "ParseUint ds = (decimal ds 0, None)"
        using ne ParseUint_digits_ok[of 0 ds] by (simp add: ParseUint_def)
      moreover have "0 \<le> decimal ds 0" using decimal_mono[of 0 ds] True by simp
      ultimately show ?thesis using False ne True unfolding ds_def
        by (auto simp add: ParseInt_def base10_int64_def Let_def maxUint64_def split: if_splits)
    next
      case bad: False
      then have "ParseUint ds = (0, Some ErrSyntax) \<or> ParseUint ds = (maxUint64, Some ErrRange)"
        using ne ParseUint_digits_fail[of 0 ds] by (simp add: ParseUint_def maxUint64_def)
      then show ?thesis using False ne bad unfolding ds_def
        by (auto simp add: ParseInt_def base10_int64_def Let_def maxUint64_def split: if_splits)
    qed
  qed
qed

lemma sizeMults_other_rows:
  "sizeMults (CHR ''b'') = Some 1 \<and> sizeMults (CHR ''k'') = Some 1000 \<and>
   sizeMults (CHR ''m'') = Some (1000 ^ 2) \<and> sizeMults (CHR ''g'') = Some (1000 ^ 3) \<and>
   sizeMults (CHR ''t'') = Some (1000 ^ 4) \<and>
   sizeMults (CHR ''B'') = Some 1 \<and> sizeMults (CHR ''K'') = Some 1024 \<and>
   sizeMults (CHR ''M'') = Some (1024 ^ 2) \<and> sizeMults (CHR ''G'') = Some (1024 ^ 3) \<and>
   sizeMults (CHR ''T'') = Some (1024 ^ 4)"
  by (simp add: sizeMults_def)

lemma getSize_examples:
  "getSize ''1024'' = Inr 1024 \<and> getSize ''1k'' = Inr 1000 \<and> getSize ''1K'' = Inr 1024 \<and>
   getSize ''2M'' = Inr 2097152 \<and> getSize ''2m'' = Inr 2000000 \<and>
   getSize [] = Inl errEmptySize \<and> getSize ''5x'' = Inl (InvalidSizeMultiplier (CHR ''x''))"
  by code_simp

text \<open>
  C3 (the multiplier table). The specification gives \<open>p\<close> the value \<open>1000^5\<close> and
  \<open>P\<close> the value \<open>1024^5\<close>. The table \<open>sizeMults\<close> of main.go repeats the products of
  \<open>t\<close> and \<open>T\<close> (four factors) in the rows of \<open>p\<close> and \<open>P\<close>, so the size
  \<open>1p\<close> parses to \<open>1000^4\<close> and \<open>1P\<close> to \<open>1024^4\<close>; the other rows and the
  specification's examples are as claimed.
\<close>

theorem getSize_suffix_p_is_tera:
  "getSize ''1p'' = Inr (1000 ^ 4) \<and> getSize ''1P'' = Inr (1024 ^ 4) \<and>
   getSize ''1p'' = getSize ''1t'' \<and> getSize ''1P'' = getSize ''1T'' \<and>
   getSize ''1p'' \<noteq> Inr (1000 ^ 5) \<and> getSize ''1P'' \<noteq> Inr (1024 ^ 5)"
  by code_simp

text \<open>
  C4 (failure conditions). \<open>getSize\<close> fails with \<open>errEmptySize\<close> exactly on the empty
  string; with the invalid-multiplier error exactly when the string is not empty and its
  last character is neither a digit nor a key of \<open>sizeMults\<close>; with the invalid-size error
  exactly when the suffix is accepted and the numeric part is no base-10 integer of 64 bits
  (it is empty, holds a character that is no digit, or is out of range); and it succeeds in
  the one remaining case.
\<close>

theorem getSize_failure_conditions:
  "(getSize v = Inl errEmptySize \<longleftrightarrow> length v = 0) \<and>
   ((\<exists>c. getSize v = Inl (InvalidSizeMultiplier c)) \<longleftrightarrow>
      v \<noteq> [] \<and> \<not> isdigit (last v) \<and> sizeMults (last v) = None) \<and>
   ((\<exists>e. getSize v = Inl (InvalidSize e)) \<longleftrightarrow>
      v \<noteq> [] \<and> multiplier v \<noteq> None \<and> \<not> base10_int64 (numeric_part v)) \<and>
   ((\<exists>n. getSize v = Inr n) \<longleftrightarrow>
      v \<noteq> [] \<and> multiplier v \<noteq> None \<and> base10_int64 (numeric_part v))"
proof (cases "v = []")
  case True
  then show ?thesis by (simp add: getSize_def)
next
  case False
  obtain sz e where p: "ParseInt (numeric_part v) = (sz, e)" by (cases "ParseInt (numeric_part v)")
  have b: "base10_int64 (numeric_part v) \<longleftrightarrow> e = None"
    using ParseInt_ok_iff[of "numeric_part v"] p by simp
  show ?thesis using False p b
    by (auto simp add: getSize_unfold multiplier_def split: option.splits if_splits)
qed

text \<open>
  C9 (no overflow check). The claim says that a product out of range makes the parser fail.
  The code multiplies in \<open>int64\<close> and returns the wrapped product: the size
  \<open>17179869184G\<close> is \<open>2^34 * 2^30\<close> and parses to 0. What holds is that a successful
  result is the product reduced to 64 bits, and so the exact product whenever that lies in
  the range of \<open>int64\<close>.
\<close>

theorem getSize_product_int64:
  "getSize v = Inr r \<Longrightarrow>
   \<exists>n m. ParseInt (numeric_part v) = (n, None) \<and> multiplier v = Some m \<and>
         r = int64 (n * m) \<and>
         (- (2 ^ 63) \<le> n * m \<and> n * m < 2 ^ 63 \<longrightarrow> r = n * m)"
proof -
  assume r: "getSize v = Inr r"
  then have ne: "v \<noteq> []" by (auto simp add: getSize_def)
  obtain n e where p: "ParseInt (numeric_part v) = (n, e)" by (cases "ParseInt (numeric_part v)")
  from r ne p obtain m where m: "multiplier v = Some m" and e: "e = None"
    and rm: "r = int64 (n * m)"
    by (auto simp add: getSize_unfold split: option.splits)
  have "- (2 ^ 63) \<le> n * m \<and> n * m < 2 ^ 63 \<longrightarrow> int64 (n * m) = n * m"
    by (simp add: int64_def)
  with p m e rm show ?thesis by auto
qed

theorem getSize_product_int64_witness:
  "\<exists>n m. ParseInt (numeric_part ''2M'') = (n, None) \<and> multiplier ''2M'' = Some m \<and>
         (2097152 :: int) = int64 (n * m) \<and>
         (- (2 ^ 63) \<le> n * m \<and> n * m < 2 ^ 63 \<longrightarrow> 2097152 = n * m)"
proof -
  have h: "getSize ''2M'' = Inr 2097152" by code_simp
  from getSize_product_int64 [OF h] show ?thesis .
qed

theorem getSize_wraps_counterexample:
  "getSize ''17179869184G'' = Inr 0 \<and> (0 :: int) \<noteq> 17179869184 * (1024 * 1024 * 1024)"
  by code_simp

section \<open>The loops return\<close>

text \<open>
  In \<open>SplitTar\<close> the write loop is entered with \<open>read \<le> len(b)\<close>, where one call of
  \<open>Write\<close> ends it. So each round of the outer loop has the closed form
  \<open>SplitTar_loop_step\<close>, and \<open>SplitTar\<close> returns on every configuration.
\<close>

lemma tw_Write_ok_length: "tw_Write tw p = ((n, None), tw') \<Longrightarrow> n = length p"
  by (auto simp add: tw_Write_def Let_def split: option.splits if_splits prod.splits)

lemma writeBlock_once:
  assumes "read \<le> length b" and "written < read"
  shows "writeBlock tw b read written =
     (case tw_Write tw (drop written b) of
        ((n, Some err), tw') \<Rightarrow> Some (Some (WriteChunkFailed err), tw')
      | ((n, None), tw') \<Rightarrow> Some (None, tw'))"
proof -
  obtain n r tw' where w: "tw_Write tw (drop written b) = ((n, r), tw')"
    by (metis prod.exhaust)
  show ?thesis
  proof (cases r)
    case (Some e)
    with w assms show ?thesis by (subst writeBlock.simps) simp
  next
    case None
    with w have "n = length (drop written b)" using tw_Write_ok_length by blast
    with assms have ge: "\<not> written + n < read" by simp
    have "writeBlock tw' b read (written + n) = Some (None, tw')"
      using ge by (subst writeBlock.simps) simp
    with w None assms show ?thesis by (subst writeBlock.simps) simp
  qed
qed

lemma SplitTar_loop_step:
  "SplitTar_loop i err h b src tw =
     (case readBlock src b 0 err of
        (src', b', read, Inl e) \<Rightarrow> Some (Some e, src', tw)
      | (src', b', read, Inr err') \<Rightarrow>
          if read = 0 then Some (if err' = Some EOF then None else err', src', tw)
          else
            (case tw_WriteHeader tw (h\<lparr>Size := int read, Name := Sprintf_08d i\<rparr>) of
               (Some e, tw1) \<Rightarrow> Some (Some (WriteHeaderFailed (Sprintf_08d i) e), src', tw1)
             | (None, tw1) \<Rightarrow>
                 (case tw_Write tw1 b' of
                    ((n, Some e), tw2) \<Rightarrow> Some (Some (WriteChunkFailed e), src', tw2)
                  | ((n, None), tw2) \<Rightarrow>
                      SplitTar_loop (i + 1) None (h\<lparr>Size := int read, Name := Sprintf_08d i\<rparr>)
                        b' src' tw2)))"
proof -
  obtain src' b' read r where rb: "readBlock src b 0 err = (src', b', read, r)"
    by (metis prod.exhaust)
  have le: "read \<le> length b'" using readBlock_length[OF rb] by simp
  show ?thesis
  proof (cases "read = 0")
    case True
    with rb show ?thesis by (subst SplitTar_loop.simps) (simp split: sum.splits)
  next
    case False
    then have "writeBlock tw1 b' read 0 =
       (case tw_Write tw1 b' of
          ((n, Some err), tw') \<Rightarrow> Some (Some (WriteChunkFailed err), tw')
        | ((n, None), tw') \<Rightarrow> Some (None, tw'))" for tw1
      using writeBlock_once[OF le, of 0 tw1] by simp
    with rb False show ?thesis
      by (subst SplitTar_loop.simps)
         (simp add: Let_def split: sum.splits prod.splits option.splits)
  qed
qed

lemma SplitTar_loop_returns: "\<exists>r. SplitTar_loop i err h b src tw = Some r"
proof (induction i err h b src tw rule: SplitTar_loop.induct)
  case (1 i err h b src tw)
  obtain src' b' read r where rb: "readBlock src b 0 err = (src', b', read, r)"
    by (metis prod.exhaust)
  show ?case
  proof (cases r)
    case (Inl e)
    with rb show ?thesis by (subst SplitTar_loop_step) simp
  next
    case (Inr err')
    show ?thesis
    proof (cases "read = 0")
      case True
      with rb Inr show ?thesis by (subst SplitTar_loop_step) simp
    next
      case False
      let ?h = "h\<lparr>Size := int read, Name := Sprintf_08d i\<rparr>"
      obtain r1 tw1 where wh: "tw_WriteHeader tw ?h = (r1, tw1)" by (metis prod.exhaust)
      show ?thesis
      proof (cases r1)
        case (Some e)
        with rb Inr False wh show ?thesis by (subst SplitTar_loop_step) simp
      next
        case None
        obtain n r2 tw2 where w: "tw_Write tw1 b' = ((n, r2), tw2)" by (metis prod.exhaust)
        show ?thesis
        proof (cases r2)
          case (Some e)
          with rb Inr False wh None w show ?thesis by (subst SplitTar_loop_step) simp
        next
          case n2: None
          have le: "read \<le> length b'" using readBlock_length[OF rb] by simp
          have wb: "writeBlock tw1 b' read 0 = Some (None, tw2)"
            using writeBlock_once[OF le, of 0 tw1] False w n2 by simp
          have "\<exists>r. SplitTar_loop (i + 1) None ?h b' src' tw2 = Some r"
            by (rule "1.IH"[of src' "(b', read, r)" b' "(read, r)" read r err' "Sprintf_08d i" ?h
                  r1 tw1 "(None, tw2)" None tw2])
               (simp_all add: rb Inr False wh None wb)
          with rb Inr False wh None w n2 show ?thesis by (subst SplitTar_loop_step) simp
        qed
      qed
    qed
  qed
qed

lemma SplitTar_returns: "\<exists>r. SplitTar host c = Some r"
proof (cases "block c < 0 \<or> source c = None \<or> target c = None")
  case True
  then show ?thesis by (auto simp add: SplitTar_def split: option.splits)
next
  case False
  then obtain src tw where c: "\<not> block c < 0" "source c = Some src" "target c = Some tw"
    by auto
  obtain err rest tw1 where
    "SplitTar_loop 0 None (createTarHeader host) (replicate (nat (block c)) 0) (pending src) tw
       = Some (err, rest, tw1)"
    using SplitTar_loop_returns by (metis prod.exhaust)
  with c show ?thesis by (simp add: SplitTar_def Let_def split: prod.splits)
qed

lemma SplitTar_loop_induct [case_names step]:
  assumes "\<And>i err h b src tw.
     (\<And>src' b' read err' tw1 n tw2.
        readBlock src b 0 err = (src', b', read, Inr err') \<Longrightarrow> read \<noteq> 0 \<Longrightarrow>
        tw_WriteHeader tw (h\<lparr>Size := int read, Name := Sprintf_08d i\<rparr>) = (None, tw1) \<Longrightarrow>
        tw_Write tw1 b' = ((n, None), tw2) \<Longrightarrow>
        P (i + 1) None (h\<lparr>Size := int read, Name := Sprintf_08d i\<rparr>) b' src' tw2) \<Longrightarrow>
     P i err h b src tw"
  shows "P i err h b src tw"
proof (induction i err h b src tw rule: SplitTar_loop.induct)
  case (1 i err h b src tw)
  show ?case
  proof (rule assms)
    fix src' b' read err' tw1 n tw2
    assume rb: "readBlock src b 0 err = (src', b', read, Inr err')" and nz: "read \<noteq> 0"
      and wh: "tw_WriteHeader tw (h\<lparr>Size := int read, Name := Sprintf_08d i\<rparr>) = (None, tw1)"
      and w: "tw_Write tw1 b' = ((n, None), tw2)"
    have le: "read \<le> length b'" using readBlock_length[OF rb] by simp
    have wb: "writeBlock tw1 b' read 0 = Some (None, tw2)"
      using writeBlock_once[OF le, of 0 tw1] nz w by simp
    show "P (i + 1) None (h\<lparr>Size := int read, Name := Sprintf_08d i\<rparr>) b' src' tw2"
      by (rule "1.IH"[of src' "(b', read, Inr err')" b' "(read, Inr err')" read "Inr err'" err'
            "Sprintf_08d i" _ None tw1 "(None, tw2)" None tw2])
         (simp_all add: rb nz wh wb)
  qed
qed

lemma main_readfile_step:
  "main_readfile i h sl bn b src tw wn =
     (case main_readblock src b 0 of
        (src', b', c, Some err) \<Rightarrow> (Some err, src', tw, wn)
      | (src', b', c, None) \<Rightarrow>
          if c = 0 then (None, src', tw, wn)
          else
            (case tw_WriteHeader tw (h\<lparr>Size := int c, Name := main_name bn sl i\<rparr>) of
               (Some err, tw1) \<Rightarrow> (Some err, src', tw1, wn)
             | (None, tw1) \<Rightarrow>
                 (case tw_Write tw1 b' of
                    ((w, Some err), tw2) \<Rightarrow> (Some err, src', tw2, wn)
                  | ((w, None), tw2) \<Rightarrow>
                      main_readfile (i + 1) (h\<lparr>Size := int c, Name := main_name bn sl i\<rparr>)
                        sl bn b' src' tw2 (if w \<noteq> c then wn + 1 else wn))))"
proof -
  obtain src' b' c r where rb: "main_readblock src b 0 = (src', b', c, r)"
    by (metis prod.exhaust)
  obtain r1 tw1 where
    wh: "tw_WriteHeader tw (h\<lparr>Size := int c, Name := main_name bn sl i\<rparr>) = (r1, tw1)"
    by (metis prod.exhaust)
  obtain w r2 tw2 where w: "tw_Write tw1 b' = ((w, r2), tw2)" by (metis prod.exhaust)
  have eq: "h\<lparr>Name := bn @ CHR ''.'' # Sprintf_padFmt sl i, Size := int c\<rparr> =
            h\<lparr>Size := int c, Name := main_name bn sl i\<rparr>"
    by (simp add: main_name_def)
  show ?thesis
    by (subst main_readfile.simps) (cases r; cases r1; cases r2; simp add: rb Let_def eq wh w)
qed

section \<open>The writer's calls\<close>

lemma tw_WriteHeader_entries_ok:
  "tw_WriteHeader tw hdr = (None, tw1) \<Longrightarrow> entries tw1 = entries tw @ [(hdr, [])]"
  by (cases "tw_err tw"; cases "device tw")
     (auto simp add: tw_WriteHeader_def device_write_def split: option.splits if_splits)

lemma tw_WriteHeader_entries_err:
  "tw_WriteHeader tw hdr = (Some e, tw1) \<Longrightarrow> entries tw1 = entries tw"
  by (cases "tw_err tw"; cases "device tw")
     (auto simp add: tw_WriteHeader_def device_write_def split: option.splits if_splits)

lemma tw_WriteHeader_entries:
  "tw_WriteHeader tw hdr = (r, tw1) \<Longrightarrow>
   entries tw1 = (if r = None then entries tw @ [(hdr, [])] else entries tw)"
  by (cases r) (auto dest: tw_WriteHeader_entries_ok tw_WriteHeader_entries_err)

lemma append_body_snoc: "append_body (es @ [(hdr, bd)]) x = es @ [(hdr, bd @ x)]"
  by (simp add: append_body_def)

lemma tw_Write_entries:
  "tw_Write tw p = ((n, r), tw2) \<Longrightarrow> entries tw2 = append_body (entries tw) (take n p)"
  by (auto simp add: tw_Write_def device_write_def Let_def append_body_def
      split: option.splits if_splits list.splits)

lemma tw_Close_entries: "entries (snd (tw_Close tw)) = entries tw"
  by (cases "tw_err tw"; cases "device tw")
     (auto simp add: tw_Close_def device_write_def Let_def split: option.splits if_splits)

lemma tw_WriteHeader_closes:
  "tw_WriteHeader tw hdr = (r, tw1) \<Longrightarrow> tw_closes tw1 = tw_closes tw"
  by (cases "tw_err tw"; cases "device tw")
     (auto simp add: tw_WriteHeader_def device_write_def split: option.splits if_splits)

lemma tw_Write_closes: "tw_Write tw p = (r, tw1) \<Longrightarrow> tw_closes tw1 = tw_closes tw"
  by (cases "tw_err tw"; cases "device tw")
     (auto simp add: tw_Write_def device_write_def Let_def split: option.splits if_splits)

lemma tw_Close_closes: "tw_closes (snd (tw_Close tw)) = tw_closes tw + 1"
  by (cases "tw_err tw"; cases "device tw")
     (auto simp add: tw_Close_def device_write_def Let_def split: option.splits if_splits)

lemma clean_emit_full:
  assumes "clean_writer tw" and "p \<noteq> []" and "Size h = int (length p)"
  shows "\<exists>tw1. tw_WriteHeader tw h = (None, tw1) \<and>
           tw_Write tw1 p = ((length p, None), tw\<lparr>entries := entries tw @ [(h, p)]\<rparr>)"
  using assms
  by (cases tw)
     (simp add: clean_writer_def tw_WriteHeader_def tw_Write_def device_write_def Let_def
       append_body_def)

lemma clean_emit_short:
  assumes "clean_writer tw" and "0 < m" and "m < length p" and "Size h = int m"
  shows "\<exists>tw1. tw_WriteHeader tw h = (None, tw1) \<and>
           tw_Write tw1 p =
             ((m, Some ErrWriteTooLong), tw\<lparr>entries := entries tw @ [(h, take m p)]\<rparr>)"
  using assms
  by (cases tw)
     (auto simp add: clean_writer_def tw_WriteHeader_def tw_Write_def device_write_def Let_def
       append_body_def min_def)

lemma clean_writer_entries [simp]: "clean_writer (tw\<lparr>entries := es\<rparr>) = clean_writer tw"
  by (simp add: clean_writer_def)

lemma clean_Close:
  "clean_writer tw \<Longrightarrow>
   tw_Close tw =
     (None, tw\<lparr>tw_err := Some ErrWriteAfterClose, trailer := True, tw_closes := tw_closes tw + 1\<rparr>)"
  by (cases tw) (simp add: clean_writer_def tw_Close_def device_write_def Let_def)

lemma clean_writer_NewWriter: "clean_writer (NewWriter [])"
  by (simp add: clean_writer_def NewWriter_def)

section \<open>The header template\<close>

lemma same_but_name_size_update:
  "same_but_name_size t h \<Longrightarrow> same_but_name_size t (h\<lparr>Size := a, Name := b\<rparr>)"
  "same_but_name_size t h \<Longrightarrow> same_but_name_size t (h\<lparr>Name := b, Size := a\<rparr>)"
  by (cases h; cases t; simp add: same_but_name_size_def)+

lemma same_but_name_size_refl: "same_but_name_size t t"
  by (simp add: same_but_name_size_def)

lemma same_but_name_size_eq:
  "same_but_name_size h h' \<Longrightarrow> h'\<lparr>Size := a, Name := b\<rparr> = h\<lparr>Size := a, Name := b\<rparr>"
  by (cases h; cases h') (simp add: same_but_name_size_def)

lemma SplitTar_loop_headers:
  "SplitTar_loop i err h b src tw = Some (e, rest, tw') \<Longrightarrow> same_but_name_size t h \<Longrightarrow>
   \<exists>new. entries tw' = entries tw @ new \<and> list_all (\<lambda>x. same_but_name_size t (fst x)) new"
proof (induction i err h b src tw rule: SplitTar_loop_induct)
  case (step i err h b src tw)
  obtain src' b' read r where rb: "readBlock src b 0 err = (src', b', read, r)"
    by (metis prod.exhaust)
  let ?h = "h\<lparr>Size := int read, Name := Sprintf_08d i\<rparr>"
  have th: "same_but_name_size t ?h" using step.prems(2) by (rule same_but_name_size_update)
  obtain r1 tw1 where wh: "tw_WriteHeader tw ?h = (r1, tw1)" by (metis prod.exhaust)
  obtain n r2 tw2 where w: "tw_Write tw1 b' = ((n, r2), tw2)" by (metis prod.exhaust)
  note e1 = tw_WriteHeader_entries[OF wh]
  note e2 = tw_Write_entries[OF w]
  show ?case
  proof (cases "\<exists>err'. r = Inr err' \<and> read \<noteq> 0 \<and> r1 = None \<and> r2 = None")
    case True
    then obtain err' where r: "r = Inr err'" and nz: "read \<noteq> 0" and r1: "r1 = None"
      and r2: "r2 = None" by blast
    have run: "SplitTar_loop (i + 1) None ?h b' src' tw2 = Some (e, rest, tw')"
      using step.prems(1) rb r nz wh r1 w r2 by (subst (asm) SplitTar_loop_step) simp
    from step.IH[OF rb[unfolded r] nz wh[unfolded r1] w[unfolded r2] run th]
    obtain new where new: "entries tw' = entries tw2 @ new"
      "list_all (\<lambda>x. same_but_name_size t (fst x)) new" by blast
    have "entries tw2 = entries tw @ [(?h, take n b')]"
      using e1 e2 r1 by (simp add: append_body_snoc)
    with new th show ?thesis by simp
  next
    case False
    then have "entries tw' = entries tw \<or> entries tw' = entries tw @ [(?h, take n b')]"
      using step.prems(1) rb wh w e1 e2
      by (subst (asm) SplitTar_loop_step)
         (auto simp add: append_body_snoc split: sum.splits if_splits option.splits)
    with th show ?thesis by auto
  qed
qed

lemma main_readfile_headers:
  "main_readfile i h sl bn b src tw wn = (e, rest, tw', wn') \<Longrightarrow> same_but_name_size t h \<Longrightarrow>
   \<exists>new. entries tw' = entries tw @ new \<and> list_all (\<lambda>x. same_but_name_size t (fst x)) new"
proof (induction i h sl bn b src tw wn rule: main_readfile.induct)
  case (1 i h sl bn b src tw wn)
  obtain src' b' c r where rb: "main_readblock src b 0 = (src', b', c, r)"
    by (metis prod.exhaust)
  let ?h = "h\<lparr>Name := bn @ CHR ''.'' # Sprintf_padFmt sl i, Size := int c\<rparr>"
  have th: "same_but_name_size t ?h" using "1.prems"(2) by (rule same_but_name_size_update)
  obtain r1 tw1 where wh: "tw_WriteHeader tw ?h = (r1, tw1)" by (metis prod.exhaust)
  obtain n r2 tw2 where w: "tw_Write tw1 b' = ((n, r2), tw2)" by (metis prod.exhaust)
  note e1 = tw_WriteHeader_entries[OF wh]
  note e2 = tw_Write_entries[OF w]
  show ?case
  proof (cases "r = None \<and> c \<noteq> 0 \<and> r1 = None \<and> r2 = None")
    case True
    then have r: "r = None" and nz: "c \<noteq> 0" and r1: "r1 = None" and r2: "r2 = None" by auto
    have run: "main_readfile (i + 1) ?h sl bn b' src' tw2 (if n \<noteq> c then wn + 1 else wn) = (e, rest, tw', wn')"
      using "1.prems"(1) rb r nz wh r1 w r2
      by (subst (asm) main_readfile.simps) (simp add: Let_def)
    have "\<exists>new. entries tw' = entries tw2 @ new \<and> list_all (\<lambda>x. same_but_name_size t (fst x)) new"
      by (rule "1.IH"[of src' "(b', c, None)" b' "(c, None)" c None ?h None tw1 "(n, None)" tw2 n None])
         (use run in \<open>simp_all add: rb r nz wh r1 w r2 th\<close>)
    then obtain new where new: "entries tw' = entries tw2 @ new"
      "list_all (\<lambda>x. same_but_name_size t (fst x)) new" by blast
    have "entries tw2 = entries tw @ [(?h, take n b')]"
      using e1 e2 r1 by (simp add: append_body_snoc)
    with new th show ?thesis by simp
  next
    case False
    then have "entries tw' = entries tw \<or> entries tw' = entries tw @ [(?h, take n b')]"
      using "1.prems"(1) rb wh w e1 e2
      by (subst (asm) main_readfile.simps)
         (auto simp add: append_body_snoc Let_def split: if_splits option.splits)
    with th show ?thesis by auto
  qed
qed

lemma SplitTar_entries:
  assumes "SplitTar host c = Some (st, c')" and "target c = Some tw" and "target c' = Some tw'"
  shows "\<exists>new. entries tw' = entries tw @ new \<and>
           list_all (\<lambda>x. same_but_name_size (createTarHeader host) (fst x)) new"
proof (cases "block c < 0 \<or> source c = None")
  case True
  with assms have "tw' = tw" by (auto simp add: SplitTar_def split: if_splits)
  then show ?thesis by simp
next
  case False
  then obtain src where src: "source c = Some src" and blk: "\<not> block c < 0" by auto
  obtain err rest tw1 where
    loop: "SplitTar_loop 0 None (createTarHeader host) (replicate (nat (block c)) 0) (pending src) tw
             = Some (err, rest, tw1)"
    using SplitTar_loop_returns by (metis prod.exhaust)
  have "tw' = snd (tw_Close tw1)"
    using assms src blk loop by (auto simp add: SplitTar_def Let_def split: prod.splits)
  then have "entries tw' = entries tw1" by (simp add: tw_Close_entries)
  with SplitTar_loop_headers[OF loop same_but_name_size_refl] show ?thesis by simp
qed

lemma main_deferred_entries:
  "entries (tarFile (main_deferred ff tf out)) = entries (tarFile out)"
  by (simp add: main_deferred_def Let_def tw_Close_entries)

lemma main_entries:
  "entries (tarFile (main p)) = [] \<or>
   (\<exists>bn b e rest tw' wn'.
      main_readfile 0 (main_Header p) (suffixLength p) bn b (source_data p)
        (NewWriter (target_device p)) 0 = (e, rest, tw', wn') \<and>
      entries (tarFile (main p)) = entries tw')"
proof -
  have n: "entries (NewWriter d) = []" for d by (simp add: NewWriter_def)
  define ff where "ff = (srcFileName p \<noteq> [] \<and> srcFileName p \<noteq> ''-'')"
  define tf where "tf = (tarFileName p \<noteq> [] \<and> tarFileName p \<noteq> ''-'')"
  show ?thesis
  proof (cases "getSize (sizeString p)")
    case (Inl err)
    then show ?thesis by (simp add: main_def n)
  next
    case (Inr size0)
    show ?thesis
    proof (cases "if ff then os_Open p else None")
      case (Some err)
      with Inr show ?thesis by (simp add: main_def n ff_def)
    next
      case None
      show ?thesis
      proof (cases "if ff then source_Stat p else Inr size0")
        case (Inl err)
        with Inr None show ?thesis by (simp add: main_def n ff_def)
      next
        case st: (Inr fs)
        show ?thesis
        proof (cases "if tf then os_Create p else None")
          case (Some err)
          with Inr None st show ?thesis by (simp add: main_def n ff_def tf_def)
        next
          case cr: None
          define size1 where "size1 = (if ff \<and> fs < size0 then fs else size0)"
          show ?thesis
          proof (cases "Int64Min size1 32768 < 0")
            case True
            with Inr None st cr show ?thesis
              by (simp add: main_def Let_def n ff_def tf_def size1_def main_deferred_entries)
          next
            case False
            obtain e rest tw' wn' where
              run: "main_readfile 0 (main_Header p) (suffixLength p) (Base (srcFileName p))
                      (replicate (nat (Int64Min size1 32768)) 0) (source_data p)
                      (NewWriter (target_device p)) 0 = (e, rest, tw', wn')"
              by (metis prod.exhaust)
            have "entries (tarFile (main p)) = entries tw'"
              using Inr None st cr False run
              by (cases e) (simp_all add: main_def Let_def ff_def tf_def size1_def main_deferred_entries)
            with run show ?thesis by blast
          qed
        qed
      qed
    qed
  qed
qed

text \<open>
  C10 (header template). In both programs every entry a run emits has a header that agrees
  with the template built before the loop in every field but name and size: for \<open>SplitTar\<close>
  the template is \<open>createTarHeader\<close> and the entries are those added to the target's
  archive, for \<open>main\<close> the template is \<open>main_Header\<close>. This holds for every source and
  every behaviour of the device, whether the run succeeds or fails.
\<close>

theorem header_template_invariant:
  "(\<forall>st c' tw tw'.
      SplitTar host c = Some (st, c') \<and> target c = Some tw \<and> target c' = Some tw' \<longrightarrow>
      (\<exists>new. entries tw' = entries tw @ new \<and>
             (\<forall>e \<in> set new. same_but_name_size (createTarHeader host) (fst e)))) \<and>
   (\<forall>e \<in> set (entries (tarFile (main p))). same_but_name_size (main_Header p) (fst e))"
proof (intro conjI allI impI)
  fix st c' tw tw'
  assume "SplitTar host c = Some (st, c') \<and> target c = Some tw \<and> target c' = Some tw'"
  then show "\<exists>new. entries tw' = entries tw @ new \<and>
             (\<forall>e \<in> set new. same_but_name_size (createTarHeader host) (fst e))"
    using SplitTar_entries[of host c st c' tw tw'] by (auto simp add: list_all_iff)
next
  show "\<forall>e \<in> set (entries (tarFile (main p))). same_but_name_size (main_Header p) (fst e)"
  proof (rule disjE[OF main_entries[of p]])
    assume "entries (tarFile (main p)) = []"
    then show ?thesis by simp
  next
    assume "\<exists>bn b e rest tw' wn'.
      main_readfile 0 (main_Header p) (suffixLength p) bn b (source_data p)
        (NewWriter (target_device p)) 0 = (e, rest, tw', wn') \<and>
      entries (tarFile (main p)) = entries tw'"
    then obtain bn b e rest tw' wn' where
      run: "main_readfile 0 (main_Header p) (suffixLength p) bn b (source_data p)
        (NewWriter (target_device p)) 0 = (e, rest, tw', wn')"
      and eq: "entries (tarFile (main p)) = entries tw'" by blast
    from main_readfile_headers[OF run same_but_name_size_refl] eq
    show ?thesis by (auto simp add: list_all_iff NewWriter_def)
  qed
qed

theorem header_template_invariant_witness:
  "(\<exists>st c' tw'.
      SplitTar example_host
        \<lparr>block = 2, source = Some (bytes_source [1, 2, 3, 4]), target = Some (NewWriter [])\<rparr>
        = Some (st, c') \<and>
      target c' = Some tw' \<and> length (entries tw') = 2 \<and>
      list_all (\<lambda>e. same_but_name_size (createTarHeader example_host) (fst e)) (entries tw')) \<and>
   length (entries (tarFile (main (stdin_process\<lparr>sizeString := ''2'',
      source_data := [Delivery [1, 2, 3, 4] None]\<rparr>)))) = 2 \<and>
   list_all (\<lambda>e. same_but_name_size
                  (main_Header (stdin_process\<lparr>sizeString := ''2'',
                      source_data := [Delivery [1, 2, 3, 4] None]\<rparr>)) (fst e))
     (entries (tarFile (main (stdin_process\<lparr>sizeString := ''2'',
      source_data := [Delivery [1, 2, 3, 4] None]\<rparr>))))"
proof -
  let ?c = "\<lparr>block = 2, source = Some (bytes_source [1, 2, 3, 4]), target = Some (NewWriter [])\<rparr>"
  let ?p = "stdin_process\<lparr>sizeString := ''2'', source_data := [Delivery [1, 2, 3, 4] None]\<rparr>"
  note inv = header_template_invariant[of example_host ?c ?p]
  have "case SplitTar example_host ?c of
          Some (st, c') \<Rightarrow>
            (case target c' of Some tw' \<Rightarrow> length (entries tw') = 2 | None \<Rightarrow> False)
        | None \<Rightarrow> False"
    by (simp add: SplitTar_eval)
  then obtain st c' tw' where run: "SplitTar example_host ?c = Some (st, c')"
    and t: "target c' = Some tw'" and l: "length (entries tw') = 2"
    by (auto split: option.splits)
  from inv run t have "\<exists>new. entries tw' = entries (NewWriter []) @ new \<and>
      (\<forall>e \<in> set new. same_but_name_size (createTarHeader example_host) (fst e))"
    by simp
  then have s: "list_all (\<lambda>e. same_but_name_size (createTarHeader example_host) (fst e)) (entries tw')"
    by (auto simp add: NewWriter_def list_all_iff)
  have m: "length (entries (tarFile (main ?p))) = 2"
    by (simp add: main_eval getSize_eval)
  from inv have "list_all (\<lambda>e. same_but_name_size (main_Header ?p) (fst e)) (entries (tarFile (main ?p)))"
    by (simp add: list_all_iff)
  with run t l s m show ?thesis by blast
qed

section \<open>Complete chunks\<close>

lemma full_chunks_nil: "length P < c \<Longrightarrow> full_chunks name h c P = []"
  by (simp add: full_chunks_def)

lemma full_chunks_Cons:
  assumes "0 < c" and "c \<le> length P"
  shows "full_chunks name h c P =
     (h\<lparr>Size := int c, Name := name 0\<rparr>, take c P) #
     full_chunks (\<lambda>k. name (Suc k)) h c (drop c P)"
proof -
  have q: "length P div c = Suc ((length P - c) div c)"
    using assms by (simp add: le_div_geq)
  have "[0..<Suc ((length P - c) div c)] = 0 # map Suc [0..<(length P - c) div c]"
    by (simp add: upt_conv_Cons map_Suc_upt del: upt_Suc)
  then show ?thesis
    by (simp add: full_chunks_def q comp_def add.commute del: upt_Suc)
qed

lemma full_chunks_template:
  "full_chunks name (h\<lparr>Size := a, Name := b\<rparr>) c P = full_chunks name h c P"
  by (simp add: full_chunks_def)

lemma full_chunks_length: "length (full_chunks name h c P) = length P div c"
  by (simp add: full_chunks_def)

lemma full_chunks_sizes:
  "map (\<lambda>e. Size (fst e)) (full_chunks name h c P) = replicate (length P div c) (int c)"
  by (simp add: full_chunks_def comp_def map_replicate_const)

lemma full_chunks_bodies:
  "0 < c \<Longrightarrow> concat (map snd (full_chunks name h c P)) = take (c * (length P div c)) P"
proof (induction "length P" arbitrary: P name rule: less_induct)
  case less
  show ?case
  proof (cases "length P < c")
    case True
    then show ?thesis by (simp add: full_chunks_nil)
  next
    case False
    then have ge: "c \<le> length P" by simp
    have lt: "length (drop c P) < length P" using ge less.prems by simp
    have q: "length P div c = Suc (length (drop c P) div c)"
      using ge less.prems by (simp add: le_div_geq)
    have "concat (map snd (full_chunks name h c P)) =
          take c P @ take (c * (length (drop c P) div c)) (drop c P)"
      using full_chunks_Cons[OF less.prems ge, of name h]
        less.hyps[OF lt less.prems, of "\<lambda>k. name (Suc k)"] by simp
    also have "\<dots> = take (c + c * (length (drop c P) div c)) P"
      by (simp add: take_add)
    finally show ?thesis unfolding q by simp
  qed
qed

section \<open>Filling the buffer from deliveries without errors\<close>

lemma readBlock_err_irrelevant:
  "r < length b \<Longrightarrow> readBlock src b r err = readBlock src b r None"
  by (simp add: readBlock.simps[of src b r err] readBlock.simps[of src b r None])

lemma readBlock_done: "\<not> r < length b \<Longrightarrow> readBlock s b r err = (s, b, r, Inr err)"
  by (subst readBlock.simps) simp

lemma readBlock_Cons_fit:
  "r < length b \<Longrightarrow> length ds \<le> length b - r \<Longrightarrow>
   readBlock (Delivery ds None # s) b r err =
     readBlock s (take r b @ ds @ drop (r + length ds) b) (r + length ds) None"
  by (subst readBlock.simps) (simp add: Let_def)

lemma readBlock_Cons_split:
  "r < length b \<Longrightarrow> length b - r < length ds \<Longrightarrow>
   readBlock (Delivery ds e # s) b r err =
     (Delivery (drop (length b - r) ds) e # s, take r b @ take (length b - r) ds, length b,
      Inr None)"
  by (subst readBlock.simps) (simp add: Let_def readBlock_done)

lemma readBlock_EOF:
  "r < length b \<Longrightarrow> readBlock [] b r err = ([], b, r, Inr (Some EOF))"
  by (subst readBlock.simps) (simp add: Let_def)


lemma deliveries_Cons [simp]: "deliveries (ds # dss) = Delivery ds None # deliveries dss"
  by (simp add: deliveries_def)

lemma deliveries_Nil [simp]: "deliveries [] = []"
  by (simp add: deliveries_def)

lemma readBlock_deliveries_short:
  "r + length (concat dss) < length b \<Longrightarrow>
   readBlock (deliveries dss @ rest) b r err =
     readBlock rest (take r b @ concat dss @ drop (r + length (concat dss)) b)
       (r + length (concat dss)) None"
proof (induction dss arbitrary: b r err)
  case Nil
  then show ?case by (simp add: readBlock_err_irrelevant[of r b rest err])
next
  case (Cons ds dss)
  let ?b1 = "take r b @ ds @ drop (r + length ds) b"
  have r: "r < length b" and fit: "length ds \<le> length b - r" using Cons.prems by auto
  have lb: "length ?b1 = length b" using fit r by simp
  have step: "readBlock (deliveries (ds # dss) @ rest) b r err =
        readBlock (deliveries dss @ rest) ?b1 (r + length ds) None"
    using r fit by (simp add: readBlock_Cons_fit)
  have "r + length ds + length (concat dss) < length ?b1" using Cons.prems lb by simp
  from Cons.IH[OF this, of None]
  have ih: "readBlock (deliveries dss @ rest) ?b1 (r + length ds) None =
        readBlock rest (take (r + length ds) ?b1 @ concat dss @
                        drop (r + length ds + length (concat dss)) ?b1)
          (r + length ds + length (concat dss)) None" .
  have t: "take (r + length ds) ?b1 = take r b @ ds" using r by simp
  have d: "drop (r + length ds + length (concat dss)) ?b1 =
           drop (r + length ds + length (concat dss)) b" using r by (simp add: ac_simps)
  show ?case unfolding step ih t d by (simp add: add.assoc)
qed

lemma readBlock_deliveries_full:
  "r < length b \<Longrightarrow> length b \<le> r + length (concat dss) \<Longrightarrow>
   \<exists>dss'. readBlock (deliveries dss @ rest) b r err =
            (deliveries dss' @ rest, take r b @ take (length b - r) (concat dss), length b, Inr None)
        \<and> concat dss' = drop (length b - r) (concat dss)"
proof (induction dss arbitrary: b r err)
  case Nil
  then show ?case by simp
next
  case (Cons ds dss)
  let ?k = "length b - r"
  have r: "r < length b" using Cons.prems by simp
  show ?case
  proof (cases "length ds \<le> ?k")
    case False
    then have big: "?k < length ds" by simp
    let ?b1 = "take r b @ take ?k ds @ drop (r + ?k) b"
    have lb: "length ?b1 = length b" using big r by simp
    have "readBlock (deliveries (ds # dss) @ rest) b r err =
        (deliveries (drop ?k ds # dss) @ rest, take r b @ take ?k (concat (ds # dss)), length b, Inr None)"
      using big r by (simp add: readBlock_Cons_split)
    moreover have "concat (drop ?k ds # dss) = drop ?k (concat (ds # dss))" using big by simp
    ultimately show ?thesis by blast
  next
    case True
    let ?b1 = "take r b @ ds @ drop (r + length ds) b"
    have lb: "length ?b1 = length b" using True r by simp
    have step: "readBlock (deliveries (ds # dss) @ rest) b r err =
        readBlock (deliveries dss @ rest) ?b1 (r + length ds) None"
      using r True by (simp add: readBlock_Cons_fit)
    show ?thesis
    proof (cases "r + length ds < length b")
      case False
      then have eq: "r + length ds = length b" using True r by simp
      have "readBlock (deliveries dss @ rest) ?b1 (r + length ds) None =
          (deliveries dss @ rest, ?b1, r + length ds, Inr None)"
        using lb eq by (simp add: readBlock_done)
      with step eq have "readBlock (deliveries (ds # dss) @ rest) b r err =
          (deliveries dss @ rest, take r b @ take ?k (concat (ds # dss)), length b, Inr None)"
        by simp
      moreover have "concat dss = drop ?k (concat (ds # dss))" using eq by simp
      ultimately show ?thesis by blast
    next
      case lt: True
      have "length ?b1 \<le> r + length ds + length (concat dss)" using Cons.prems lb by simp
      from Cons.IH[of "r + length ds" ?b1, OF _ this, of None] lt lb
      obtain dss' where
        ih: "readBlock (deliveries dss @ rest) ?b1 (r + length ds) None =
             (deliveries dss' @ rest,
              take (r + length ds) ?b1 @ take (length ?b1 - (r + length ds)) (concat dss),
              length ?b1, Inr None)"
        and c: "concat dss' = drop (length ?b1 - (r + length ds)) (concat dss)" by auto
      have t: "take (r + length ds) ?b1 = take r b @ ds" using r by simp
      have "readBlock (deliveries (ds # dss) @ rest) b r err =
          (deliveries dss' @ rest, take r b @ take ?k (concat (ds # dss)), length b, Inr None)"
        unfolding step ih t lb using True by simp
      moreover have "concat dss' = drop ?k (concat (ds # dss))"
        using c True unfolding lb by simp
      ultimately show ?thesis by blast
    qed
  qed
qed

lemma main_readblock_done: "\<not> c < length b \<Longrightarrow> main_readblock s b c = (s, b, c, None)"
  by (subst main_readblock.simps) simp

lemma main_readblock_Cons_fit:
  "c < length b \<Longrightarrow> length ds \<le> length b - c \<Longrightarrow>
   main_readblock (Delivery ds None # s) b c =
     main_readblock s (take c b @ ds @ drop (c + length ds) b) (c + length ds)"
  by (subst main_readblock.simps) (simp add: Let_def)

lemma main_readblock_Cons_split:
  "c < length b \<Longrightarrow> length b - c < length ds \<Longrightarrow>
   main_readblock (Delivery ds e # s) b c =
     (Delivery (drop (length b - c) ds) e # s, take c b @ take (length b - c) ds, length b, None)"
  by (subst main_readblock.simps) (simp add: Let_def main_readblock_done)

lemma main_readblock_EOF:
  "c < length b \<Longrightarrow> main_readblock [] b c = ([], b, c, None)"
  by (subst main_readblock.simps) (simp add: Let_def)


lemma main_readblock_deliveries_short:
  "r + length (concat dss) < length b \<Longrightarrow>
   main_readblock (deliveries dss @ rest) b r =
     main_readblock rest (take r b @ concat dss @ drop (r + length (concat dss)) b)
       (r + length (concat dss))"
proof (induction dss arbitrary: b r)
  case Nil
  then show ?case by simp
next
  case (Cons ds dss)
  let ?b1 = "take r b @ ds @ drop (r + length ds) b"
  have r: "r < length b" and fit: "length ds \<le> length b - r" using Cons.prems by auto
  have lb: "length ?b1 = length b" using fit r by simp
  have step: "main_readblock (deliveries (ds # dss) @ rest) b r =
        main_readblock (deliveries dss @ rest) ?b1 (r + length ds)"
    using r fit by (simp add: main_readblock_Cons_fit)
  have "r + length ds + length (concat dss) < length ?b1" using Cons.prems lb by simp
  from Cons.IH[OF this]
  have ih: "main_readblock (deliveries dss @ rest) ?b1 (r + length ds) =
        main_readblock rest (take (r + length ds) ?b1 @ concat dss @
                        drop (r + length ds + length (concat dss)) ?b1)
          (r + length ds + length (concat dss))" .
  have t: "take (r + length ds) ?b1 = take r b @ ds" using r by simp
  have d: "drop (r + length ds + length (concat dss)) ?b1 =
           drop (r + length ds + length (concat dss)) b" using r by (simp add: ac_simps)
  show ?case unfolding step ih t d by (simp add: add.assoc)
qed

lemma main_readblock_deliveries_full:
  "r < length b \<Longrightarrow> length b \<le> r + length (concat dss) \<Longrightarrow>
   \<exists>dss'. main_readblock (deliveries dss @ rest) b r =
            (deliveries dss' @ rest, take r b @ take (length b - r) (concat dss), length b, None)
        \<and> concat dss' = drop (length b - r) (concat dss)"
proof (induction dss arbitrary: b r)
  case Nil
  then show ?case by simp
next
  case (Cons ds dss)
  let ?k = "length b - r"
  have r: "r < length b" using Cons.prems by simp
  show ?case
  proof (cases "length ds \<le> ?k")
    case False
    then have big: "?k < length ds" by simp
    have "main_readblock (deliveries (ds # dss) @ rest) b r =
        (deliveries (drop ?k ds # dss) @ rest, take r b @ take ?k (concat (ds # dss)), length b, None)"
      using big r by (simp add: main_readblock_Cons_split)
    moreover have "concat (drop ?k ds # dss) = drop ?k (concat (ds # dss))" using big by simp
    ultimately show ?thesis by blast
  next
    case True
    let ?b1 = "take r b @ ds @ drop (r + length ds) b"
    have lb: "length ?b1 = length b" using True r by simp
    have step: "main_readblock (deliveries (ds # dss) @ rest) b r =
        main_readblock (deliveries dss @ rest) ?b1 (r + length ds)"
      using r True by (simp add: main_readblock_Cons_fit)
    show ?thesis
    proof (cases "r + length ds < length b")
      case False
      then have eq: "r + length ds = length b" using True r by simp
      have "main_readblock (deliveries dss @ rest) ?b1 (r + length ds) =
          (deliveries dss @ rest, ?b1, r + length ds, None)"
        using lb eq by (simp add: main_readblock_done)
      with step eq have "main_readblock (deliveries (ds # dss) @ rest) b r =
          (deliveries dss @ rest, take r b @ take ?k (concat (ds # dss)), length b, None)"
        by simp
      moreover have "concat dss = drop ?k (concat (ds # dss))" using eq by simp
      ultimately show ?thesis by blast
    next
      case lt: True
      have "length ?b1 \<le> r + length ds + length (concat dss)" using Cons.prems lb by simp
      from Cons.IH[of "r + length ds" ?b1, OF _ this] lt lb
      obtain dss' where
        ih: "main_readblock (deliveries dss @ rest) ?b1 (r + length ds) =
             (deliveries dss' @ rest,
              take (r + length ds) ?b1 @ take (length ?b1 - (r + length ds)) (concat dss),
              length ?b1, None)"
        and c: "concat dss' = drop (length ?b1 - (r + length ds)) (concat dss)" by auto
      have t: "take (r + length ds) ?b1 = take r b @ ds" using r by simp
      have "main_readblock (deliveries (ds # dss) @ rest) b r =
          (deliveries dss' @ rest, take r b @ take ?k (concat (ds # dss)), length b, None)"
        unfolding step ih t lb using True by simp
      moreover have "concat dss' = drop ?k (concat (ds # dss))"
        using c True unfolding lb by simp
      ultimately show ?thesis by blast
    qed
  qed
qed

section \<open>Runs on a source that ends by an empty read or fails\<close>

text \<open>
  With a clean writer and a buffer of \<open>c > 0\<close> bytes, a source that delivers \<open>P\<close> without
  errors makes both loops emit \<open>full_chunks\<close> of \<open>P\<close>, whatever the lengths of the single
  deliveries. What follows depends on what comes next: a read failure ends the run with
  these entries only; the end of the stream adds one entry for the \<open>length P mod c\<close> bytes
  left, if there are any, and then \<open>Write\<close>, handed the whole buffer, returns
  \<open>ErrWriteTooLong\<close>.
\<close>

lemma SplitTar_loop_full_step:
  assumes "clean_writer tw" and "0 < length b" and "length b \<le> length (concat dss)"
  shows "\<exists>dss'. SplitTar_loop i err h b (deliveries dss @ rest) tw =
            SplitTar_loop (i + 1) None (h\<lparr>Size := int (length b), Name := Sprintf_08d i\<rparr>)
              (take (length b) (concat dss)) (deliveries dss' @ rest)
              (tw\<lparr>entries := entries tw @
                 [(h\<lparr>Size := int (length b), Name := Sprintf_08d i\<rparr>,
                   take (length b) (concat dss))]\<rparr>)
          \<and> concat dss' = drop (length b) (concat dss)"
proof -
  let ?h = "h\<lparr>Size := int (length b), Name := Sprintf_08d i\<rparr>"
  let ?p = "take (length b) (concat dss)"
  from readBlock_deliveries_full[of 0 b dss rest err] assms(2,3)
  obtain dss' where rb: "readBlock (deliveries dss @ rest) b 0 err =
       (deliveries dss' @ rest, ?p, length b, Inr None)"
    and c: "concat dss' = drop (length b) (concat dss)" by auto
  have lp: "length ?p = length b" using assms(3) by simp
  have "0 < length ?p" using assms(2) unfolding lp .
  then have p: "?p \<noteq> []" "length ?p = length b" using lp by simp_all
  from clean_emit_full[OF assms(1) p(1), of ?h] p(2)
  obtain tw1 where wh: "tw_WriteHeader tw ?h = (None, tw1)"
    and w: "tw_Write tw1 ?p = ((length b, None), tw\<lparr>entries := entries tw @ [(?h, ?p)]\<rparr>)"
    by auto
  have "SplitTar_loop i err h b (deliveries dss @ rest) tw =
        SplitTar_loop (i + 1) None ?h ?p (deliveries dss' @ rest)
          (tw\<lparr>entries := entries tw @ [(?h, ?p)]\<rparr>)"
    using rb wh w assms(2) by (subst SplitTar_loop_step) simp
  with c show ?thesis by blast
qed

lemma SplitTar_loop_full_chunks:
  assumes "clean_writer tw" and "0 < length b"
  shows "\<exists>dss' b' h' err'.
           SplitTar_loop i err h b (deliveries dss @ rest) tw =
             SplitTar_loop (i + length (concat dss) div length b) err' h' b'
               (deliveries dss' @ rest)
               (tw\<lparr>entries := entries tw @ full_chunks (\<lambda>k. Sprintf_08d (i + k)) h (length b) (concat dss)\<rparr>)
         \<and> concat dss' = drop (length b * (length (concat dss) div length b)) (concat dss)
         \<and> length b' = length b \<and> same_but_name_size h h'"
  using assms
proof (induction "length (concat dss)" arbitrary: dss i err h b tw rule: less_induct)
  case less
  let ?c = "length b"
  let ?P = "concat dss"
  show ?case
  proof (cases "length ?P < ?c")
    case True
    have "SplitTar_loop i err h b (deliveries dss @ rest) tw =
             SplitTar_loop (i + length ?P div ?c) err h b (deliveries dss @ rest)
               (tw\<lparr>entries := entries tw @ full_chunks (\<lambda>k. Sprintf_08d (i + k)) h ?c ?P\<rparr>)"
      using True by (simp add: full_chunks_nil)
    moreover have "concat dss = drop (?c * (length ?P div ?c)) ?P" using True by simp
    ultimately show ?thesis using same_but_name_size_refl by blast
  next
    case False
    then have ge: "?c \<le> length ?P" by simp
    let ?h1 = "h\<lparr>Size := int ?c, Name := Sprintf_08d i\<rparr>"
    let ?b1 = "take ?c ?P"
    let ?tw1 = "tw\<lparr>entries := entries tw @ [(?h1, ?b1)]\<rparr>"
    from SplitTar_loop_full_step[OF less.prems(1,2) ge, of i err h rest]
    obtain dss1 where s1: "SplitTar_loop i err h b (deliveries dss @ rest) tw =
        SplitTar_loop (i + 1) None ?h1 ?b1 (deliveries dss1 @ rest) ?tw1"
      and c1: "concat dss1 = drop ?c ?P" by blast
    have lb1: "length ?b1 = ?c" using ge by simp
    have lt: "length (concat dss1) < length ?P"
      using c1 ge less.prems(2) by (simp del: length_greater_0_conv)
    have cw: "clean_writer ?tw1" using less.prems(1) by simp
    have pos: "0 < length ?b1" using lb1 less.prems(2) by simp
    from less.hyps[OF lt cw pos, of "i + 1" None ?h1]
    obtain dss' b' h' err' where
      s2: "SplitTar_loop (i + 1) None ?h1 ?b1 (deliveries dss1 @ rest) ?tw1 =
             SplitTar_loop (i + 1 + length (concat dss1) div length ?b1) err' h' b'
               (deliveries dss' @ rest)
               (?tw1\<lparr>entries := entries ?tw1 @ full_chunks (\<lambda>k. Sprintf_08d (i + 1 + k)) ?h1 (length ?b1) (concat dss1)\<rparr>)"
      and c2: "concat dss' = drop (length ?b1 * (length (concat dss1) div length ?b1)) (concat dss1)"
      and l2: "length b' = length ?b1" and t2: "same_but_name_size ?h1 h'" by blast
    have q: "length ?P div ?c = Suc (length (concat dss1) div ?c)"
      using ge less.prems(2) c1 by (simp add: le_div_geq)
    have fc: "full_chunks (\<lambda>k. Sprintf_08d (i + k)) h ?c ?P =
              (?h1, ?b1) # full_chunks (\<lambda>k. Sprintf_08d (i + 1 + k)) ?h1 ?c (concat dss1)"
      using full_chunks_Cons[OF less.prems(2) ge, of "\<lambda>k. Sprintf_08d (i + k)" h] c1
      by (simp add: full_chunks_template)
    have e: "?tw1\<lparr>entries := entries ?tw1 @ full_chunks (\<lambda>k. Sprintf_08d (i + 1 + k)) ?h1 (length ?b1) (concat dss1)\<rparr>
           = tw\<lparr>entries := entries tw @ full_chunks (\<lambda>k. Sprintf_08d (i + k)) h ?c ?P\<rparr>"
      unfolding lb1 fc by simp
    have t: "same_but_name_size h h'"
      using t2 by (cases h; cases h') (simp add: same_but_name_size_def)
    have d: "concat dss' = drop (?c * (length ?P div ?c)) ?P"
      using c2 c1 unfolding lb1 q by (simp add: add.commute)
    have "SplitTar_loop i err h b (deliveries dss @ rest) tw =
            SplitTar_loop (i + length ?P div ?c) err' h' b' (deliveries dss' @ rest)
              (tw\<lparr>entries := entries tw @ full_chunks (\<lambda>k. Sprintf_08d (i + k)) h ?c ?P\<rparr>)"
      unfolding s1 s2 lb1 q by (simp add: fc)
    with d l2[unfolded lb1] t show ?thesis by blast
  qed
qed


lemma SplitTar_loop_end_of_stream:
  assumes "clean_writer tw" and "0 < length b"
  shows "SplitTar_loop i err h b (deliveries dss) tw =
     (let c = length b; P = concat dss; q = length P div c; m = length P mod c;
          full = full_chunks (\<lambda>k. Sprintf_08d (i + k)) h c P
      in if m = 0 then Some (None, [], tw\<lparr>entries := entries tw @ full\<rparr>)
         else Some (Some (WriteChunkFailed ErrWriteTooLong), [],
                    tw\<lparr>entries := entries tw @ full @
                       [(h\<lparr>Size := int m, Name := Sprintf_08d (i + q)\<rparr>, drop (c * q) P)]\<rparr>))"
proof -
  let ?c = "length b"
  let ?q = "length (concat dss) div ?c"
  let ?m = "length (concat dss) mod ?c"
  let ?tw = "tw\<lparr>entries := entries tw @ full_chunks (\<lambda>k. Sprintf_08d (i + k)) h ?c (concat dss)\<rparr>"
  from SplitTar_loop_full_chunks[OF assms(1,2), of i err h dss "[]"]
  obtain dss' b' h' err' where
    s: "SplitTar_loop i err h b (deliveries dss) tw =
          SplitTar_loop (i + ?q) err' h' b' (deliveries dss') ?tw"
    and c: "concat dss' = drop (?c * ?q) (concat dss)"
    and l: "length b' = ?c" and t: "same_but_name_size h h'" by auto
  have lm: "length (concat dss') = ?m"
    unfolding c by (simp add: minus_mult_div_eq_mod)
  then have m: "length (concat dss') < length b'"
    using assms(2) l by (simp del: length_greater_0_conv)
  let ?b = "take 0 b' @ concat dss' @ drop (0 + length (concat dss')) b'"
  have lb: "length (concat dss') < length ?b" using m by simp
  have rb: "readBlock (deliveries dss') b' 0 err' = ([], ?b, ?m, Inr (Some EOF))"
    using readBlock_deliveries_short[of 0 dss' b' "[]" err'] m
      readBlock_EOF[of "length (concat dss')" ?b None] lb lm
    by simp
  show ?thesis
  proof (cases "?m = 0")
    case True
    with rb have "SplitTar_loop (i + ?q) err' h' b' (deliveries dss') ?tw = Some (None, [], ?tw)"
      by (subst SplitTar_loop_step) simp
    with s True show ?thesis by (simp add: Let_def)
  next
    case False
    let ?h = "h'\<lparr>Size := int ?m, Name := Sprintf_08d (i + ?q)\<rparr>"
    have cw: "clean_writer ?tw" using assms(1) by simp
    have ml: "?m < length ?b" using lb lm by simp
    from clean_emit_short[OF cw _ ml, of ?h] False
    obtain tw1 where wh: "tw_WriteHeader ?tw ?h = (None, tw1)"
      and w: "tw_Write tw1 ?b =
              ((?m, Some ErrWriteTooLong), ?tw\<lparr>entries := entries ?tw @ [(?h, take ?m ?b)]\<rparr>)"
      by auto
    have tk: "take ?m ?b = drop (?c * ?q) (concat dss)" using lm c by simp
    have hh: "?h = h\<lparr>Size := int ?m, Name := Sprintf_08d (i + ?q)\<rparr>"
      using t by (rule same_but_name_size_eq)
    have "SplitTar_loop (i + ?q) err' h' b' (deliveries dss') ?tw =
            Some (Some (WriteChunkFailed ErrWriteTooLong), [],
                  ?tw\<lparr>entries := entries ?tw @ [(?h, take ?m ?b)]\<rparr>)"
      using rb wh w False by (subst SplitTar_loop_step) simp
    with s False show ?thesis unfolding tk hh by (simp add: Let_def)
  qed
qed

lemma main_readfile_full_step:
  assumes "clean_writer tw" and "0 < length b" and "length b \<le> length (concat dss)"
  shows "\<exists>dss'. main_readfile i h sl bn b (deliveries dss @ rest) tw wn =
            main_readfile (i + 1) (h\<lparr>Size := int (length b), Name := main_name bn sl i\<rparr>)
              sl bn (take (length b) (concat dss)) (deliveries dss' @ rest)
              (tw\<lparr>entries := entries tw @
                 [(h\<lparr>Size := int (length b), Name := main_name bn sl i\<rparr>,
                   take (length b) (concat dss))]\<rparr>) wn
          \<and> concat dss' = drop (length b) (concat dss)"
proof -
  let ?h = "h\<lparr>Size := int (length b), Name := main_name bn sl i\<rparr>"
  let ?p = "take (length b) (concat dss)"
  from main_readblock_deliveries_full[of 0 b dss rest] assms(2,3)
  obtain dss' where rb: "main_readblock (deliveries dss @ rest) b 0 =
       (deliveries dss' @ rest, ?p, length b, None)"
    and c: "concat dss' = drop (length b) (concat dss)" by auto
  have lp: "length ?p = length b" using assms(3) by simp
  have "0 < length ?p" using assms(2) unfolding lp .
  then have p: "?p \<noteq> []" "length ?p = length b" using lp by simp_all
  from clean_emit_full[OF assms(1) p(1), of ?h] p(2)
  obtain tw1 where wh: "tw_WriteHeader tw ?h = (None, tw1)"
    and w: "tw_Write tw1 ?p = ((length b, None), tw\<lparr>entries := entries tw @ [(?h, ?p)]\<rparr>)"
    by auto
  have "main_readfile i h sl bn b (deliveries dss @ rest) tw wn =
        main_readfile (i + 1) ?h sl bn ?p (deliveries dss' @ rest)
          (tw\<lparr>entries := entries tw @ [(?h, ?p)]\<rparr>) wn"
    using rb wh w assms(2) by (subst main_readfile_step) simp
  with c show ?thesis by blast
qed

lemma main_readfile_full_chunks:
  assumes "clean_writer tw" and "0 < length b"
  shows "\<exists>dss' b' h'.
           main_readfile i h sl bn b (deliveries dss @ rest) tw wn =
             main_readfile (i + length (concat dss) div length b) h' sl bn b'
               (deliveries dss' @ rest)
               (tw\<lparr>entries := entries tw @
                  full_chunks (\<lambda>k. main_name bn sl (i + k)) h (length b) (concat dss)\<rparr>) wn
         \<and> concat dss' = drop (length b * (length (concat dss) div length b)) (concat dss)
         \<and> length b' = length b \<and> same_but_name_size h h'"
  using assms
proof (induction "length (concat dss)" arbitrary: dss i h b tw rule: less_induct)
  case less
  let ?c = "length b"
  let ?P = "concat dss"
  show ?case
  proof (cases "length ?P < ?c")
    case True
    have "main_readfile i h sl bn b (deliveries dss @ rest) tw wn =
             main_readfile (i + length ?P div ?c) h sl bn b (deliveries dss @ rest)
               (tw\<lparr>entries := entries tw @ full_chunks (\<lambda>k. main_name bn sl (i + k)) h ?c ?P\<rparr>) wn"
      using True by (simp add: full_chunks_nil)
    moreover have "concat dss = drop (?c * (length ?P div ?c)) ?P" using True by simp
    ultimately show ?thesis using same_but_name_size_refl by blast
  next
    case False
    then have ge: "?c \<le> length ?P" by simp
    let ?h1 = "h\<lparr>Size := int ?c, Name := main_name bn sl i\<rparr>"
    let ?b1 = "take ?c ?P"
    let ?tw1 = "tw\<lparr>entries := entries tw @ [(?h1, ?b1)]\<rparr>"
    from main_readfile_full_step[OF less.prems(1,2) ge, of i h sl bn rest wn]
    obtain dss1 where s1: "main_readfile i h sl bn b (deliveries dss @ rest) tw wn =
        main_readfile (i + 1) ?h1 sl bn ?b1 (deliveries dss1 @ rest) ?tw1 wn"
      and c1: "concat dss1 = drop ?c ?P" by blast
    have lb1: "length ?b1 = ?c" using ge by simp
    have lt: "length (concat dss1) < length ?P"
      using c1 ge less.prems(2) by (simp del: length_greater_0_conv)
    have cw: "clean_writer ?tw1" using less.prems(1) by simp
    have pos: "0 < length ?b1" using lb1 less.prems(2) by simp
    from less.hyps[OF lt cw pos, of "i + 1" ?h1]
    obtain dss' b' h' where
      s2: "main_readfile (i + 1) ?h1 sl bn ?b1 (deliveries dss1 @ rest) ?tw1 wn =
             main_readfile (i + 1 + length (concat dss1) div length ?b1) h' sl bn b'
               (deliveries dss' @ rest)
               (?tw1\<lparr>entries := entries ?tw1 @
                  full_chunks (\<lambda>k. main_name bn sl (i + 1 + k)) ?h1 (length ?b1) (concat dss1)\<rparr>) wn"
      and c2: "concat dss' = drop (length ?b1 * (length (concat dss1) div length ?b1)) (concat dss1)"
      and l2: "length b' = length ?b1" and t2: "same_but_name_size ?h1 h'" by blast
    have q: "length ?P div ?c = Suc (length (concat dss1) div ?c)"
      using ge less.prems(2) c1 by (simp add: le_div_geq)
    have fc: "full_chunks (\<lambda>k. main_name bn sl (i + k)) h ?c ?P =
              (?h1, ?b1) # full_chunks (\<lambda>k. main_name bn sl (i + 1 + k)) ?h1 ?c (concat dss1)"
      using full_chunks_Cons[OF less.prems(2) ge, of "\<lambda>k. main_name bn sl (i + k)" h] c1
      by (simp add: full_chunks_template)
    have t: "same_but_name_size h h'"
      using t2 by (cases h; cases h') (simp add: same_but_name_size_def)
    have d: "concat dss' = drop (?c * (length ?P div ?c)) ?P"
      using c2 c1 unfolding lb1 q by (simp add: add.commute)
    have "main_readfile i h sl bn b (deliveries dss @ rest) tw wn =
            main_readfile (i + length ?P div ?c) h' sl bn b' (deliveries dss' @ rest)
              (tw\<lparr>entries := entries tw @ full_chunks (\<lambda>k. main_name bn sl (i + k)) h ?c ?P\<rparr>) wn"
      unfolding s1 s2 lb1 q by (simp add: fc)
    with d l2[unfolded lb1] t show ?thesis by blast
  qed
qed


lemma main_readfile_end_of_stream:
  assumes "clean_writer tw" and "0 < length b"
  shows "main_readfile i h sl bn b (deliveries dss) tw wn =
     (let c = length b; P = concat dss; q = length P div c; m = length P mod c;
          full = full_chunks (\<lambda>k. main_name bn sl (i + k)) h c P
      in if m = 0 then (None, [], tw\<lparr>entries := entries tw @ full\<rparr>, wn)
         else (Some ErrWriteTooLong, [],
               tw\<lparr>entries := entries tw @ full @
                  [(h\<lparr>Size := int m, Name := main_name bn sl (i + q)\<rparr>, drop (c * q) P)]\<rparr>, wn))"
proof -
  let ?c = "length b"
  let ?q = "length (concat dss) div ?c"
  let ?m = "length (concat dss) mod ?c"
  let ?tw = "tw\<lparr>entries := entries tw @ full_chunks (\<lambda>k. main_name bn sl (i + k)) h ?c (concat dss)\<rparr>"
  from main_readfile_full_chunks[OF assms(1,2), of i h sl bn dss "[]" wn]
  obtain dss' b' h' where
    s: "main_readfile i h sl bn b (deliveries dss) tw wn =
          main_readfile (i + ?q) h' sl bn b' (deliveries dss') ?tw wn"
    and c: "concat dss' = drop (?c * ?q) (concat dss)"
    and l: "length b' = ?c" and t: "same_but_name_size h h'" by auto
  have lm: "length (concat dss') = ?m"
    unfolding c by (simp add: minus_mult_div_eq_mod)
  then have m: "length (concat dss') < length b'"
    using assms(2) l by (simp del: length_greater_0_conv)
  let ?b = "take 0 b' @ concat dss' @ drop (0 + length (concat dss')) b'"
  have lb: "length (concat dss') < length ?b" using m by simp
  have rb: "main_readblock (deliveries dss') b' 0 = ([], ?b, ?m, None)"
    using main_readblock_deliveries_short[of 0 dss' b' "[]"] m
      main_readblock_EOF[of "length (concat dss')" ?b] lb lm
    by simp
  show ?thesis
  proof (cases "?m = 0")
    case True
    with rb have "main_readfile (i + ?q) h' sl bn b' (deliveries dss') ?tw wn = (None, [], ?tw, wn)"
      by (subst main_readfile_step) simp
    with s True show ?thesis by (simp add: Let_def)
  next
    case False
    let ?h = "h'\<lparr>Size := int ?m, Name := main_name bn sl (i + ?q)\<rparr>"
    have cw: "clean_writer ?tw" using assms(1) by simp
    have ml: "?m < length ?b" using lb lm by simp
    from clean_emit_short[OF cw _ ml, of ?h] False
    obtain tw1 where wh: "tw_WriteHeader ?tw ?h = (None, tw1)"
      and w: "tw_Write tw1 ?b =
              ((?m, Some ErrWriteTooLong), ?tw\<lparr>entries := entries ?tw @ [(?h, take ?m ?b)]\<rparr>)"
      by auto
    have tk: "take ?m ?b = drop (?c * ?q) (concat dss)" using lm c by simp
    have hh: "?h = h\<lparr>Size := int ?m, Name := main_name bn sl (i + ?q)\<rparr>"
      using t by (rule same_but_name_size_eq)
    have "main_readfile (i + ?q) h' sl bn b' (deliveries dss') ?tw wn =
            (Some ErrWriteTooLong, [],
             ?tw\<lparr>entries := entries ?tw @ [(?h, take ?m ?b)]\<rparr>, wn)"
      using rb wh w False by (subst main_readfile_step) simp
    with s False show ?thesis unfolding tk hh by (simp add: Let_def)
  qed
qed

lemma Base_dash: "Base ''-'' = ''-''"
  by (simp add: Base_def)

lemma main_stdin_run:
  assumes "getSize (sizeString p) = Inr sz" and "0 \<le> sz"
    and "srcFileName p = ''-''" and "tarFileName p = ''-''"
  shows "main p =
     (case main_readfile 0 (main_Header p) (suffixLength p) ''-''
             (replicate (nat (Int64Min sz 32768)) 0) (source_data p)
             (NewWriter (target_device p)) 0 of
        (Some err, src', tw', w) \<Rightarrow>
          \<lparr>exit_status = Exited err, tarFile = tw', unread = src', opened = False,
           created = False, source_closes = 0, target_closes = 0, warnings = w\<rparr>
      | (None, src', tw', w) \<Rightarrow>
          \<lparr>exit_status = Returned None, tarFile = snd (tw_Close tw'), unread = src',
           opened = False, created = False, source_closes = 0, target_closes = 0,
           warnings = w\<rparr>)"
proof -
  have nn: "\<not> Int64Min sz 32768 < 0" using assms(2) by (simp add: Int64Min_def)
  obtain r src' tw' w where
    run: "main_readfile 0 (main_Header p) (suffixLength p) ''-''
            (replicate (nat (Int64Min sz 32768)) 0) (source_data p)
            (NewWriter (target_device p)) 0 = (r, src', tw', w)"
    by (metis prod.exhaust)
  show ?thesis
    using assms(1,3,4) nn run
    by (cases r) (simp_all add: main_def Let_def Base_dash main_deferred_def)
qed



lemma SplitTar_end_of_stream:
  assumes "source c = Some src" and "target c = Some tw" and "clean_writer tw"
    and "0 < block c" and "pending src = deliveries dss"
  shows "\<exists>c'. SplitTar host c =
            Some (Returned (WrapDeferred
                    (if length (concat dss) mod nat (block c) = 0 then None
                     else Some (WriteChunkFailed ErrWriteTooLong))
                    (close_result src)), c') \<and>
          map_option bodies (target c') = Some (bodies tw @ concat dss) \<and>
          map_option sizes (target c') =
            Some (sizes tw @
                  replicate (length (concat dss) div nat (block c)) (block c) @
                  (if length (concat dss) mod nat (block c) = 0 then []
                   else [int (length (concat dss) mod nat (block c))]))"
proof -
  let ?c = "nat (block c)"
  let ?P = "concat dss"
  let ?b = "replicate ?c (0 :: byte)"
  let ?h = "createTarHeader host"
  let ?full = "full_chunks Sprintf_08d ?h ?c ?P"
  have pos: "0 < length ?b" and c0: "0 < ?c" using assms(4) by simp_all
  note loop = SplitTar_loop_end_of_stream[OF assms(3) pos, of 0 None ?h dss]
  have fb: "concat (map snd ?full) = take (?c * (length ?P div ?c)) ?P"
    by (rule full_chunks_bodies[OF c0])
  have fs: "map (\<lambda>e. Size (fst e)) ?full = replicate (length ?P div ?c) (int ?c)"
    by (rule full_chunks_sizes)
  have ic: "int ?c = block c" using assms(4) by simp
  show ?thesis
  proof (cases "length ?P mod ?c = 0")
    case True
    then have all: "?c * (length ?P div ?c) = length ?P" by auto
    let ?tw = "tw\<lparr>entries := entries tw @ ?full\<rparr>"
    have l: "SplitTar_loop 0 None ?h ?b (pending src) tw = Some (None, [], ?tw)"
      using loop True assms(5) by (simp add: Let_def)
    have cw: "clean_writer ?tw" using assms(3) by simp
    show ?thesis
      using assms(1,2,4) l clean_Close[OF cw] True fb fs all ic
      by (cases "close_result src")
         (simp_all add: SplitTar_def Let_def rc_Close_def WrapDeferred_def bodies_def sizes_def)
  next
    case False
    let ?last = "(?h\<lparr>Size := int (length ?P mod ?c),
                      Name := Sprintf_08d (length ?P div ?c)\<rparr>,
                  drop (?c * (length ?P div ?c)) ?P)"
    let ?tw = "tw\<lparr>entries := entries tw @ ?full @ [?last]\<rparr>"
    have l: "SplitTar_loop 0 None ?h ?b (pending src) tw =
               Some (Some (WriteChunkFailed ErrWriteTooLong), [], ?tw)"
      using loop False assms(5) by (simp add: Let_def)
    have cw: "clean_writer ?tw" using assms(3) by simp
    show ?thesis
      using assms(1,2,4) l clean_Close[OF cw] False fb fs ic
      by (cases "close_result src")
         (simp_all add: SplitTar_def Let_def rc_Close_def WrapDeferred_def bodies_def sizes_def)
  qed
qed

lemma main_end_of_stream:
  assumes "getSize (sizeString p) = Inr sz" and "0 < sz"
    and "srcFileName p = ''-''" and "tarFileName p = ''-''" and "target_device p = []"
    and "source_data p = deliveries dss"
  shows "(let c = nat (Int64Min sz 32768); n = length (concat dss)
          in exit_status (main p) =
               (if n mod c = 0 then Returned None else Exited ErrWriteTooLong) \<and>
             bodies (tarFile (main p)) = concat dss \<and>
             sizes (tarFile (main p)) =
               replicate (n div c) (int c) @ (if n mod c = 0 then [] else [int (n mod c)]))"
proof -
  let ?c = "nat (Int64Min sz 32768)"
  let ?P = "concat dss"
  let ?b = "replicate ?c (0 :: byte)"
  let ?h = "main_Header p"
  let ?full = "full_chunks (main_name ''-'' (suffixLength p)) ?h ?c ?P"
  have c0: "0 < ?c" using assms(2) by (simp add: Int64Min_def)
  then have pos: "0 < length ?b" by simp
  have sz: "0 \<le> sz" using assms(2) by simp
  note loop = main_readfile_end_of_stream[OF clean_writer_NewWriter pos,
      of 0 ?h "suffixLength p" "''-''" dss 0]
  have fb: "concat (map snd ?full) = take (?c * (length ?P div ?c)) ?P"
    by (rule full_chunks_bodies[OF c0])
  have fs: "map (\<lambda>e. Size (fst e)) ?full = replicate (length ?P div ?c) (int ?c)"
    by (rule full_chunks_sizes)
  show ?thesis
  proof (cases "length ?P mod ?c = 0")
    case True
    then have all: "?c * (length ?P div ?c) = length ?P" by auto
    have l: "main_readfile 0 ?h (suffixLength p) ''-'' ?b (source_data p)
               (NewWriter (target_device p)) 0 =
             (None, [], (NewWriter [])\<lparr>entries := entries (NewWriter []) @ ?full\<rparr>, 0)"
      using loop True assms(5,6) by (simp add: Let_def)
    show ?thesis
      unfolding main_stdin_run[OF assms(1) sz assms(3,4)] l
      using True fb fs all
      by (simp add: Let_def bodies_def sizes_def tw_Close_entries NewWriter_def)
  next
    case False
    let ?last = "(?h\<lparr>Size := int (length ?P mod ?c),
                      Name := main_name ''-'' (suffixLength p) (length ?P div ?c)\<rparr>,
                  drop (?c * (length ?P div ?c)) ?P)"
    have l: "main_readfile 0 ?h (suffixLength p) ''-'' ?b (source_data p)
               (NewWriter (target_device p)) 0 =
             (Some ErrWriteTooLong, [],
              (NewWriter [])\<lparr>entries := entries (NewWriter []) @ ?full @ [?last]\<rparr>, 0)"
      using loop False assms(5,6) by (simp add: Let_def)
    show ?thesis
      unfolding main_stdin_run[OF assms(1) sz assms(3,4)] l
      using False fb fs
      by (simp add: Let_def bodies_def sizes_def NewWriter_def)
  qed
qed




section \<open>Bytes delivered together with the end of the stream\<close>

lemma main_keeps_bytes_delivered_with_EOF:
  "(let out = main (stdin_process\<lparr>sizeString := ''2'',
                                   source_data := [Delivery [1, 2] (Some EOF)]\<rparr>)
    in exit_status out = Returned None \<and> bodies (tarFile out) = [1, 2] \<and>
       sizes (tarFile out) = [2])"
  by (simp add: main_eval getSize_eval)

text \<open>
  C1 (round trip). The claim says that for every source and every positive chunk size the
  bodies of the emitted entries, concatenated, are the source bytes. \<open>SplitTar\<close> leaves its
  read loop on \<open>io.EOF\<close> before it adds the bytes of that \<open>Read\<close> to \<open>read\<close>, so the
  bytes a reader returns together with \<open>io.EOF\<close> are lost: for a reader that answers the
  first \<open>Read\<close> with two bytes and \<open>io.EOF\<close> the run returns no error and the archive has
  no entry. main.go adds the bytes before it tests the error and keeps them
  (\<open>main_keeps_bytes_delivered_with_EOF\<close>). For a source that ends by an empty read the
  bodies are the source bytes in both programs (\<open>SplitTar_end_of_stream\<close>,
  \<open>main_end_of_stream\<close>).
\<close>

theorem SplitTar_drops_bytes_delivered_with_EOF:
  "NewConfig [BlockSize 2, SourceReader [Delivery [1, 2] (Some EOF)], TargetWriter []] =
     Inr \<lparr>block = 2,
          source = Some \<lparr>pending = [Delivery [1, 2] (Some EOF)], close_result = None,
                         closes = 0\<rparr>,
          target = Some (NewWriter [])\<rparr> \<and>
   SplitTar example_host
     \<lparr>block = 2,
      source = Some \<lparr>pending = [Delivery [1, 2] (Some EOF)], close_result = None,
                     closes = 0\<rparr>,
      target = Some (NewWriter [])\<rparr> =
   Some (Returned None,
         \<lparr>block = 2,
          source = Some \<lparr>pending = [], close_result = None, closes = 1\<rparr>,
          target = Some \<lparr>entries = [], nb = 0, tw_err = Some ErrWriteAfterClose,
                          device = [], trailer = True, tw_closes = 1\<rparr>\<rparr>)"
  by (simp add: SplitTar_eval)

text \<open>
  C2 (number and sizes of the chunks). The claim says that \<open>n\<close> bytes and a chunk size
  \<open>c\<close> give \<open>ceil(n/c)\<close> entries of \<open>c\<close> bytes, the last one possibly shorter. main.go
  allocates its buffer with \<open>util.Int64Min(size, 32768)\<close> bytes and makes one entry of each
  filled buffer, so a size above 32768 gives entries of 32768 bytes: 65536 bytes with the
  size 65536 become two entries, not one. Up to 32768 bytes, and in \<open>SplitTar\<close> for every
  block size, a source that ends by an empty read gives the sizes of the claim
  (\<open>main_end_of_stream\<close>, \<open>SplitTar_end_of_stream\<close>).
\<close>

theorem main_entries_capped_at_32768:
  "(let out = main (stdin_process\<lparr>sizeString := ''65536'',
                                   source_data := [Delivery (replicate 65536 7) None]\<rparr>)
    in exit_status out = Returned None \<and> sizes (tarFile out) = [32768, 32768] \<and>
       bodies (tarFile out) = replicate 65536 7)"
  by (simp add: main_eval getSize_eval replicate_add[symmetric])

section \<open>The short final chunk\<close>

lemma tw_Write_too_long:
  "tw_err tw = None \<Longrightarrow> device tw = [] \<Longrightarrow>
   snd (fst (tw_Write tw p)) = Some ErrWriteTooLong \<longleftrightarrow> nb tw < length p"
  by (simp add: tw_Write_def device_write_def Let_def)

text \<open>
  C7 (the body of an entry is exactly the bytes read). The claim says that a flush writes
  exactly \<open>fill offset\<close> bytes of the buffer, also for a short final chunk. Both programs
  set the size field to the fill offset but hand the writer the whole buffer
  (\<open>b[written:]\<close>, \<open>b\<close>), the bytes read and the stale bytes behind them. The archive
  writer stores the first \<open>Size\<close> bytes and answers \<open>ErrWriteTooLong\<close>
  (\<open>tw_Write_too_long\<close>), which both programs treat as a failed write: three bytes with
  the chunk size 2 give the entries of 2 and 1 bytes, and then \<open>SplitTar\<close> returns the
  failure to write the chunk and \<open>main\<close> exits without writing the trailer. The same
  happens for every source whose length is no multiple of the chunk size
  (\<open>SplitTar_end_of_stream\<close>, \<open>main_end_of_stream\<close>).
\<close>

theorem short_final_chunk_fails_with_write_too_long:
  "(case splitTar example_host (bytes_source [1, 2, 3]) [] 2 of
      Some (st, Some c') \<Rightarrow>
        st = Returned (Some (WriteChunkFailed ErrWriteTooLong)) \<and>
        map_option sizes (target c') = Some [2, 1] \<and>
        map_option bodies (target c') = Some [1, 2, 3]
    | _ \<Rightarrow> False) \<and>
   (let out = main (stdin_process\<lparr>sizeString := ''2'',
                                   source_data := [Delivery [1, 2, 3] None]\<rparr>)
    in exit_status out = Exited ErrWriteTooLong \<and> sizes (tarFile out) = [2, 1] \<and>
       \<not> trailer (tarFile out))"
  by (simp add: SplitTar_eval main_eval getSize_eval)

section \<open>A chunk size that is not positive\<close>

lemma BlockSize_rejects_nonpositive:
  "blk \<le> 0 \<Longrightarrow> NewConfig (BlockSize blk # options) = Inl BlockSizeNotPositive"
  by (simp add: NewConfig_def)

lemma splitTar_rejects_nonpositive:
  "blk \<le> 0 \<Longrightarrow>
   splitTar host src tgt blk = Some (Returned (Some (InitConfigFailed BlockSizeNotPositive)), None)"
  by (simp add: splitTar_def BlockSize_rejects_nonpositive)

text \<open>
  C5 (zero or negative chunk size). The claim says that such a size fails as a configuration
  error before any I/O. The library does this: \<open>BlockSize\<close> rejects it and \<open>splitTar\<close>
  returns before \<open>SplitTar\<close> runs (\<open>splitTar_rejects_nonpositive\<close>). main.go does not:
  \<open>getSize\<close> parses \<open>0\<close> and \<open>-1\<close> without error and \<open>main\<close> never looks at the sign.
  With the size 0 it reads nothing, writes the trailer of an empty archive to the target
  and returns; with a negative size it creates the target file and then panics in
  \<open>make\<close>, and the deferred close still writes the trailer.
\<close>

theorem main_accepts_size_zero_and_negative:
  "getSize ''0'' = Inr 0 \<and> getSize ''-1'' = Inr (- 1) \<and>
   (let out = main (stdin_process\<lparr>sizeString := ''0'',
                                   source_data := [Delivery [1, 2, 3] None]\<rparr>)
    in exit_status out = Returned None \<and> entries (tarFile out) = [] \<and>
       trailer (tarFile out) \<and> unread out = [Delivery [1, 2, 3] None]) \<and>
   (let out = main (stdin_process\<lparr>sizeString := ''-1'', tarFileName := ''out.tar'',
                                   source_data := [Delivery [1, 2, 3] None]\<rparr>)
    in exit_status out = Panicked \<and> created out \<and> trailer (tarFile out))"
  by (simp add: main_eval getSize_eval)

section \<open>Closing the source and the archive\<close>

lemma SplitTar_loop_closes:
  "SplitTar_loop i err h b src tw = Some (e, rest, tw') \<Longrightarrow> tw_closes tw' = tw_closes tw"
proof (induction i err h b src tw rule: SplitTar_loop_induct)
  case (step i err h b src tw)
  obtain src' b' read r where rb: "readBlock src b 0 err = (src', b', read, r)"
    by (metis prod.exhaust)
  let ?h = "h\<lparr>Size := int read, Name := Sprintf_08d i\<rparr>"
  obtain r1 tw1 where wh: "tw_WriteHeader tw ?h = (r1, tw1)" by (metis prod.exhaust)
  obtain n r2 tw2 where w: "tw_Write tw1 b' = ((n, r2), tw2)" by (metis prod.exhaust)
  note c1 = tw_WriteHeader_closes[OF wh]
  note c2 = tw_Write_closes[OF w]
  show ?case
  proof (cases "\<exists>err'. r = Inr err' \<and> read \<noteq> 0 \<and> r1 = None \<and> r2 = None")
    case True
    then obtain err' where r: "r = Inr err'" and nz: "read \<noteq> 0" and r1: "r1 = None"
      and r2: "r2 = None" by blast
    have run: "SplitTar_loop (i + 1) None ?h b' src' tw2 = Some (e, rest, tw')"
      using step.prems rb r nz wh r1 w r2 by (subst (asm) SplitTar_loop_step) simp
    from step.IH[OF rb[unfolded r] nz wh[unfolded r1] w[unfolded r2] run] c1 c2
    show ?thesis by simp
  next
    case False
    then have "tw' = tw \<or> tw' = tw1 \<or> tw' = tw2"
      using step.prems rb wh w
      by (subst (asm) SplitTar_loop_step) (auto split: sum.splits if_splits option.splits)
    with c1 c2 show ?thesis by auto
  qed
qed

lemma SplitTar_closes_once:
  assumes "SplitTar host c = Some (st, c')" and "source c = Some src" and "target c = Some tw"
    and "0 \<le> block c"
  shows "map_option closes (source c') = Some (closes src + 1) \<and>
         map_option tw_closes (target c') = Some (tw_closes tw + 1) \<and>
         (\<exists>err rest tw1.
            SplitTar_loop 0 None (createTarHeader host) (replicate (nat (block c)) 0)
              (pending src) tw = Some (err, rest, tw1) \<and>
            st = Returned (WrapDeferred (WrapDeferred err (fst (tw_Close tw1)))
                             (close_result src)))"
proof -
  obtain err rest tw1 where
    loop: "SplitTar_loop 0 None (createTarHeader host) (replicate (nat (block c)) 0) (pending src) tw
             = Some (err, rest, tw1)"
    using SplitTar_loop_returns by (metis prod.exhaust)
  obtain cerr tw2 where cl: "tw_Close tw1 = (cerr, tw2)" by (metis prod.exhaust)
  have "tw_closes tw2 = tw_closes tw + 1"
    using tw_Close_closes[of tw1] cl SplitTar_loop_closes[OF loop] by simp
  then show ?thesis
    using assms loop cl by (auto simp add: SplitTar_def Let_def rc_Close_def)
qed

lemma WrapDeferred_composes:
  "WrapDeferred (Some body) (Some closing) = Some (Deferred closing (Some body)) \<and>
   WrapDeferred None (Some closing) = Some (Deferred closing None) \<and>
   WrapDeferred err None = err"
  by (simp add: WrapDeferred_def)

text \<open>
  C8 (closed exactly once, close errors reported). \<open>SplitTar\<close> closes the archive writer
  and the source exactly once on every path and composes a close error with the error of the
  run (\<open>SplitTar_closes_once\<close>, \<open>WrapDeferred_composes\<close>). main.go registers its closes
  with \<open>defer\<close> but leaves through \<open>exitOnError\<close>, that is \<open>os.Exit\<close>, on every
  failure, and then none of them runs: after a failed read the source file, the target file
  and the archive writer are all left unclosed and the archive has no trailer. On a
  successful run the result of the deferred \<open>tarFile.Close()\<close> is dropped: when the device
  fails on the trailer the run still ends without error.
\<close>

theorem main_exit_skips_deferred_closes:
  "(let out = main (stdin_process\<lparr>sizeString := ''2'', srcFileName := ''in.bin'',
                      tarFileName := ''out.tar'', source_Stat := Inr 3,
                      source_data := [Delivery [1, 2] None, Delivery [] (Some (HostError 5))]\<rparr>)
    in exit_status out = Exited (HostError 5) \<and> opened out \<and> created out \<and>
       sizes (tarFile out) = [2] \<and>
       source_closes out = 0 \<and> target_closes out = 0 \<and> tw_closes (tarFile out) = 0 \<and>
       \<not> trailer (tarFile out)) \<and>
   (let out = main (stdin_process\<lparr>sizeString := ''2'',
                      source_data := [Delivery [1, 2] None],
                      target_device := [None, None, Some (HostError 28)]\<rparr>)
    in exit_status out = Returned None \<and> tw_closes (tarFile out) = 1 \<and>
       \<not> trailer (tarFile out))"
  by (simp add: main_eval getSize_eval)

end
